theory Spec2Isabelle
  imports Complex_Main "HOL-Library.Word"
begin

unbundle bit_operations_syntax

section \<open>Pixel buffers and the RGB565 codec\<close>

text \<open>
  An \<open>ImageData\<close> carries its dimensions and a \<open>Uint8ClampedArray\<close> of RGBA bytes.
  The browser guarantees \<open>length data = 4 * width * height\<close> for every \<open>ImageData\<close>
  object; the predicate \<open>valid_ImageData\<close> records that guarantee.
\<close>

record ImageData =
  width :: nat
  height :: nat
  data :: "8 word list"

definition valid_ImageData :: "ImageData \<Rightarrow> bool" where
  "valid_ImageData img \<longleftrightarrow> length (data img) = 4 * width img * height img"

text \<open>
  Reading \<open>data[i]\<close> and using it in arithmetic that ends in \<open>Math.floor\<close> and a bitwise
  operator: inside the array it is the byte; outside it is \<open>undefined\<close>, which becomes
  \<open>NaN\<close> in the division and \<open>0\<close> under \<open><<\<close> and \<open>|\<close>.
\<close>

definition byte_at :: "8 word list \<Rightarrow> nat \<Rightarrow> nat" where
  "byte_at d i = (if i < length d then unat (d ! i) else 0)"

text \<open>The body of the compression loop: \<open>(r << 11) | (g << 5) | b\<close> stored in a \<open>Uint16Array\<close> cell.\<close>

definition pack565 :: "8 word list \<Rightarrow> nat \<Rightarrow> 16 word" where
  "pack565 d i =
     (let r = byte_at d i div 8;
          g = byte_at d (i + 1) div 4;
          b = byte_at d (i + 2) div 8
      in word_of_nat (push_bit 11 r OR push_bit 5 g OR b))"

text \<open>
  \<open>for (let i = 0; i < data.length; i += 4) compressed[i / 4] = ...\<close>; a write beyond the
  end of a typed array is ignored, which is what list update does out of range.
\<close>

function compress_loop :: "8 word list \<Rightarrow> nat \<Rightarrow> 16 word list \<Rightarrow> 16 word list" where
  "compress_loop d i compressed =
     (if i < length d
      then compress_loop d (i + 4) (compressed[i div 4 := pack565 d i])
      else compressed)"
  by pat_completeness auto
termination
  by (relation "measure (\<lambda>(d, i, c). length d - i)") auto

declare compress_loop.simps [simp del]

text \<open>\<open>ImageDataCompressor.compressRGB565\<close> and \<open>MosaicWorker.compressImageData\<close> (same body).\<close>

definition compressRGB565 :: "ImageData \<Rightarrow> 16 word list" where
  "compressRGB565 imageData =
     compress_loop (data imageData) 0 (replicate (length (data imageData) div 4) 0)"

definition compressImageData :: "ImageData \<Rightarrow> 16 word list" where
  "compressImageData imageData =
     compress_loop (data imageData) 0 (replicate (length (data imageData) div 4) 0)"

text \<open>A store into a \<open>Uint8ClampedArray\<close> clamps the (here integral) value to 0..255.\<close>

definition clamp8 :: "nat \<Rightarrow> 8 word" where
  "clamp8 v = word_of_nat (min v 255)"

definition unpack_r :: "16 word \<Rightarrow> nat" where
  "unpack_r pixel = drop_bit 11 (unat pixel) * 8"

definition unpack_g :: "16 word \<Rightarrow> nat" where
  "unpack_g pixel = (drop_bit 5 (unat pixel) AND 63) * 4"

definition unpack_b :: "16 word \<Rightarrow> nat" where
  "unpack_b pixel = (unat pixel AND 31) * 8"

text \<open>\<open>for (let i = 0; i < compressed.length; i++) { data[i * 4] = r; ... data[i * 4 + 3] = 255 }\<close>\<close>

function decompress_loop :: "16 word list \<Rightarrow> nat \<Rightarrow> 8 word list \<Rightarrow> 8 word list" where
  "decompress_loop compressed i d =
     (if i < length compressed
      then decompress_loop compressed (i + 1)
             (d[i * 4 := clamp8 (unpack_r (compressed ! i)),
                i * 4 + 1 := clamp8 (unpack_g (compressed ! i)),
                i * 4 + 2 := clamp8 (unpack_b (compressed ! i)),
                i * 4 + 3 := clamp8 255])
      else d)"
  by pat_completeness auto
termination
  by (relation "measure (\<lambda>(c, i, d). length c - i)") auto

declare decompress_loop.simps [simp del]

text \<open>\<open>new ImageData(w, h)\<close>: a zero-filled buffer of \<open>4 * w * h\<close> bytes.\<close>

definition new_ImageData :: "nat \<Rightarrow> nat \<Rightarrow> ImageData" where
  "new_ImageData w h = \<lparr>width = w, height = h, data = replicate (4 * w * h) 0\<rparr>"

definition decompressRGB565 :: "16 word list \<Rightarrow> nat \<Rightarrow> nat \<Rightarrow> ImageData" where
  "decompressRGB565 compressed w h =
     (let imageData = new_ImageData w h
      in imageData\<lparr>data := decompress_loop compressed 0 (data imageData)\<rparr>)"

definition decompressImageData :: "16 word list \<Rightarrow> nat \<Rightarrow> ImageData" where
  "decompressImageData compressed sz =
     (let imageData = new_ImageData sz sz
      in imageData\<lparr>data := decompress_loop compressed 0 (data imageData)\<rparr>)"

text \<open>The value written by one iteration of the decompression loop at offset \<open>m\<close> of a pixel.\<close>

definition channel :: "16 word \<Rightarrow> nat \<Rightarrow> 8 word" where
  "channel p m = (if m = 0 then clamp8 (unpack_r p) else if m = 1 then clamp8 (unpack_g p)
                  else if m = 2 then clamp8 (unpack_b p) else clamp8 255)"

text \<open>
  The round-trip tolerance: same length, each of R, G, B within one quantization step
  (7 for the 5-bit channels, 3 for the 6-bit channel) and alpha 255 in every pixel.
\<close>

definition within_quantization_step :: "8 word list \<Rightarrow> 8 word list \<Rightarrow> bool" where
  "within_quantization_step orig out \<longleftrightarrow>
     length out = length orig \<and>
     (\<forall>k < length orig div 4.
        \<bar>uint (orig ! (4 * k)) - uint (out ! (4 * k))\<bar> \<le> 7 \<and>
        \<bar>uint (orig ! (4 * k + 1)) - uint (out ! (4 * k + 1))\<bar> \<le> 3 \<and>
        \<bar>uint (orig ! (4 * k + 2)) - uint (out ! (4 * k + 2))\<bar> \<le> 7 \<and>
        out ! (4 * k + 3) = 255)"

text \<open>The same tolerance for the first \<open>m\<close> pixels only, whatever the lengths.\<close>

definition pixels_within_step :: "nat \<Rightarrow> 8 word list \<Rightarrow> 8 word list \<Rightarrow> bool" where
  "pixels_within_step m orig out \<longleftrightarrow>
     (\<forall>k < m.
        \<bar>uint (orig ! (4 * k)) - uint (out ! (4 * k))\<bar> \<le> 7 \<and>
        \<bar>uint (orig ! (4 * k + 1)) - uint (out ! (4 * k + 1))\<bar> \<le> 3 \<and>
        \<bar>uint (orig ! (4 * k + 2)) - uint (out ! (4 * k + 2))\<bar> \<le> 7 \<and>
        out ! (4 * k + 3) = 255)"

text \<open>A one-pixel image and a 2 x 1 image.\<close>

definition one_pixel_image :: ImageData where
  "one_pixel_image = \<lparr>width = 1, height = 1, data = [255, 130, 7, 9]\<rparr>"

definition wide_image :: ImageData where
  "wide_image = \<lparr>width = 2, height = 1, data = [255, 130, 7, 9, 8, 16, 24, 255]\<rparr>"

text \<open>
  A 64 x 64 image, the size of the thumbnails the main thread sends: pixel \<open>(x, y)\<close> has
  red \<open>4 * x\<close>, green \<open>4 * y\<close>, blue 0 and alpha 255.
\<close>

definition gradient_byte :: "nat \<Rightarrow> 8 word" where
  "gradient_byte j =
     (if j mod 4 = 0 then of_nat (4 * ((j div 4) mod 64))
      else if j mod 4 = 1 then of_nat (4 * ((j div 4) div 64))
      else if j mod 4 = 2 then 0 else 255)"

definition gradient_image :: ImageData where
  "gradient_image = \<lparr>width = 64, height = 64, data = map gradient_byte [0..<16384]\<rparr>"

section \<open>Colour values and distances\<close>

text \<open>
  JavaScript numbers are modelled by exact reals; \<open>NaN\<close> and \<open>Infinity\<close> are modelled
  only where the code can produce them from whole numbers (\<open>jsnum\<close> below).
\<close>

record Lab =
  lab_l :: real
  lab_a :: real
  lab_b :: real

record Color =
  red :: real
  green :: real
  blue :: real

text \<open>\<open>MosaicWorker.rgbToLab\<close> (the "simplified" conversion, same as \<open>ColorUtils.rgbToLabFast\<close>).\<close>

definition rgbToLab :: "Color \<Rightarrow> Lab" where
  "rgbToLab rgb =
     (let rn = red rgb / 255; gn = green rgb / 255; bn = blue rgb / 255;
          l = 0.299 * rn + 0.587 * gn + 0.114 * bn;
          a = 0.5 * (rn - gn);
          bVal = 0.5 * (gn - bn)
      in \<lparr>lab_l = l * 100, lab_a = a * 100, lab_b = bVal * 100\<rparr>)"

text \<open>\<open>MosaicWorker.calculateColorDistance(lab1, lab2, method = 'rgb')\<close>\<close>

definition calculateColorDistance :: "Lab \<Rightarrow> Lab \<Rightarrow> string \<Rightarrow> real" where
  "calculateColorDistance lab1 lab2 method =
     (if method = ''lab''
      then (let deltaL = lab_l lab1 - lab_l lab2;
                deltaA = lab_a lab1 - lab_a lab2;
                deltaB = lab_b lab1 - lab_b lab2
            in sqrt (deltaL * deltaL + deltaA * deltaA + deltaB * deltaB))
      else (let deltaL = lab_l lab1 - lab_l lab2 in \<bar>deltaL\<bar>))"

text \<open>\<open>ColorUtils.deltaEFast(rgb1, rgb2)\<close>\<close>

definition deltaEFast :: "Color \<Rightarrow> Color \<Rightarrow> real" where
  "deltaEFast rgb1 rgb2 =
     (let deltaR = red rgb1 - red rgb2;
          deltaG = green rgb1 - green rgb2;
          deltaB = blue rgb1 - blue rgb2
      in sqrt (2 * deltaR * deltaR + 4 * deltaG * deltaG + 3 * deltaB * deltaB))"

text \<open>
  \<open>TileManager.calculateColorDistance(color1, color2)\<close>, commented "Weighted Euclidean
  distance", which \<open>TileManager.findBestMatches\<close> ranks tiles by.
\<close>

definition TileManager_calculateColorDistance :: "Color \<Rightarrow> Color \<Rightarrow> real" where
  "TileManager_calculateColorDistance color1 color2 =
     (let deltaR = red color1 - red color2;
          deltaG = green color1 - green color2;
          deltaB = blue color1 - blue color2
      in sqrt (2 * deltaR * deltaR + 4 * deltaG * deltaG + 3 * deltaB * deltaB))"

section \<open>Tile assignment\<close>

record Tile =
  filename :: string
  averageColor :: Color
  averageColorLab :: Lab
  imageData :: "16 word list"
  originalImageData :: ImageData

text \<open>
  The pixels \<open>drawTileToCanvas(ctx, tile, x, y, size)\<close> puts on the tile canvas:
  \<open>this.decompressImageData(tile.imageData, size)\<close>, where \<open>size\<close> is
  \<open>settings.tileSize\<close> and \<open>tile.imageData\<close> is the compressed buffer that
  \<open>extractTileMetadata\<close> stored.
\<close>

definition drawTileToCanvas_imageData :: "Tile \<Rightarrow> nat \<Rightarrow> ImageData" where
  "drawTileToCanvas_imageData t sz = decompressImageData (imageData t) sz"

record Cell =
  cell_x :: nat
  cell_y :: nat
  cell_color :: Color
  cell_lab :: Lab

record Settings =
  gridSize :: nat
  tileSize :: nat
  quality :: string
  colorMatching :: string
  neighborDiversity :: string

record Candidate =
  tile :: Tile
  distance :: real
  usage :: nat

text \<open>
  Whole-number results of JavaScript arithmetic that may also be \<open>Infinity\<close> (a division by
  zero, \<open>Math.min()\<close> of nothing) or \<open>NaN\<close> (\<open>0 / 0\<close>).
\<close>

datatype jsnum = Num nat | PosInf | NaN

text \<open>\<open>Math.ceil(a / b)\<close> for whole numbers \<open>a\<close>, \<open>b\<close>.\<close>

definition Math_ceil_div :: "nat \<Rightarrow> nat \<Rightarrow> jsnum" where
  "Math_ceil_div a b =
     (if b = 0 then (if a = 0 then NaN else PosInf)
      else Num (nat \<lceil>real a / real b\<rceil>))"

text \<open>\<open>Math.max(1, v)\<close>\<close>

fun Math_max_1 :: "jsnum \<Rightarrow> jsnum" where
  "Math_max_1 (Num n) = Num (max 1 n)"
| "Math_max_1 PosInf = PosInf"
| "Math_max_1 NaN = NaN"

fun js_add :: "jsnum \<Rightarrow> jsnum \<Rightarrow> jsnum" where
  "js_add (Num a) (Num b) = Num (a + b)"
| "js_add NaN _ = NaN"
| "js_add _ NaN = NaN"
| "js_add _ _ = PosInf"

text \<open>\<open>u < v\<close> for a count \<open>u\<close>: every comparison with \<open>NaN\<close> is false.\<close>

fun js_lt :: "nat \<Rightarrow> jsnum \<Rightarrow> bool" where
  "js_lt u (Num m) = (u < m)"
| "js_lt u PosInf = True"
| "js_lt u NaN = False"

text \<open>\<open>Math.min(...xs)\<close>: \<open>Infinity\<close> for no arguments.\<close>

fun Math_min :: "nat list \<Rightarrow> jsnum" where
  "Math_min [] = PosInf"
| "Math_min (v # vs) = (case Math_min vs of Num m \<Rightarrow> Num (min v m) | _ \<Rightarrow> Num v)"

text \<open>
  The usage counter is a \<open>Map\<close> from filename to count, kept here as an association list in
  insertion order; \<open>usageCount.get(name) || 0\<close> reads it.
\<close>

type_synonym UsageCounter = "(string \<times> nat) list"

definition usage_of :: "UsageCounter \<Rightarrow> string \<Rightarrow> nat" where
  "usage_of usageCount name = (case map_of usageCount name of None \<Rightarrow> 0 | Some n \<Rightarrow> n)"

fun usage_set :: "string \<Rightarrow> nat \<Rightarrow> UsageCounter \<Rightarrow> UsageCounter" where
  "usage_set k v [] = [(k, v)]"
| "usage_set k v (p # ps) = (if fst p = k then (k, v) # ps else p # usage_set k v ps)"

text \<open>
  \<open>const baseMaxUsage = Math.max(1, Math.ceil(totalCells / tileCount));\<close>
  \<open>const maxUsage = baseMaxUsage + Math.ceil(tileCount / 20);\<close>
  as written in \<open>selectBestTileWithNeighborConstraint\<close> and again in \<open>selectBestTile\<close>.
\<close>

definition maxUsage_constrained :: "Settings \<Rightarrow> Tile list \<Rightarrow> jsnum" where
  "maxUsage_constrained settings tileMetadata =
     (let totalCells = gridSize settings * gridSize settings;
          tileCount = length tileMetadata;
          baseMaxUsage = Math_max_1 (Math_ceil_div totalCells tileCount)
      in js_add baseMaxUsage (Math_ceil_div tileCount 20))"

definition maxUsage_unconstrained :: "Settings \<Rightarrow> Tile list \<Rightarrow> jsnum" where
  "maxUsage_unconstrained settings tileMetadata =
     (let totalCells = gridSize settings * gridSize settings;
          tileCount = length tileMetadata;
          baseMaxUsage = Math_max_1 (Math_ceil_div totalCells tileCount)
      in js_add baseMaxUsage (Math_ceil_div tileCount 20))"

text \<open>
  \<open>Math.random()\<close> returns a double in [0, 1); it is modelled as the fraction \<open>k / 2^53\<close> of
  a 53-bit numerator, so \<open>Math.floor(Math.random() * n)\<close> is \<open>k * n div 2^53\<close>.
\<close>

type_synonym random = "53 word"

definition random_index :: "random \<Rightarrow> nat \<Rightarrow> nat" where
  "random_index u n = (unat u * n) div 2 ^ 53"

text \<open>\<open>xs[i]\<close>: \<open>undefined\<close> outside the array.\<close>

definition js_index :: "'a list \<Rightarrow> nat \<Rightarrow> 'a option" where
  "js_index xs i = (if i < length xs then Some (xs ! i) else None)"

text \<open>
  Exceptions: the \<open>TypeError\<close> of reading a property of \<open>undefined\<close>, the
  \<open>IndexSizeError\<close> of \<open>new ImageData(0, 0)\<close>, the \<open>Error('Processing was cancelled')\<close>
  of \<open>checkPauseCancel\<close>, and any other error with its message.
\<close>

datatype error = TypeError | IndexSizeError | ProcessingCancelled | Failure string

definition make_candidate :: "Cell \<Rightarrow> UsageCounter \<Rightarrow> Settings \<Rightarrow> Tile \<Rightarrow> Candidate" where
  "make_candidate cell usageCount settings t =
     \<lparr>tile = t,
      distance = calculateColorDistance (cell_lab cell) (averageColorLab t) (colorMatching settings),
      usage = usage_of usageCount (filename t)\<rparr>"

text \<open>
  The part shared by both selection procedures, from \<open>limitedCandidates\<close> to
  \<open>return bestCandidate.tile\<close>; the two copies differ only in the share of the tied
  candidates kept before the random draw (\<open>0.3\<close> in \<open>selectBestTile\<close>, \<open>0.4\<close> with the
  neighbour constraint), given here in tenths. Reading \<open>bestCandidate.tile\<close> when
  \<open>bestCandidate\<close> is \<open>undefined\<close> throws a \<open>TypeError\<close>.
\<close>

definition choose_candidate :: "Candidate list \<Rightarrow> jsnum \<Rightarrow> nat \<Rightarrow> random \<Rightarrow> error + Tile" where
  "choose_candidate allCandidates maxUsage tenths u =
     (let limitedCandidates = filter (\<lambda>candidate. js_lt (usage candidate) maxUsage) allCandidates;
          candidates =
            (if length limitedCandidates > 0 then take 10 limitedCandidates
             else (let minUsage = Math_min (map usage allCandidates)
                   in take 10 (filter (\<lambda>c. Num (usage c) = minUsage) allCandidates)));
          minUsageInCandidates = Math_min (map usage candidates);
          bestUsageCandidates = filter (\<lambda>c. Num (usage c) = minUsageInCandidates) candidates;
          bestCandidate =
            (if length bestUsageCandidates = 1 then js_index bestUsageCandidates 0
             else (let sortedByDistance = sort_key distance bestUsageCandidates;
                       topCandidatesCount =
                         max 1 (nat \<lceil>real (length sortedByDistance) * real tenths / 10\<rceil>);
                       topCandidates = take topCandidatesCount sortedByDistance;
                       randomIndex = random_index u (length topCandidates)
                   in js_index topCandidates randomIndex))
      in case bestCandidate of None \<Rightarrow> Inl TypeError | Some c \<Rightarrow> Inr (tile c))"

text \<open>\<open>MosaicWorker.selectBestTile(cell, tileMetadata, usageCount, settings)\<close>\<close>

definition selectBestTile :: "Cell \<Rightarrow> Tile list \<Rightarrow> UsageCounter \<Rightarrow> Settings \<Rightarrow> random \<Rightarrow> error + Tile" where
  "selectBestTile cell tileMetadata usageCount settings u =
     (let maxUsage = maxUsage_unconstrained settings tileMetadata;
          allCandidates = sort_key distance (map (make_candidate cell usageCount settings) tileMetadata)
      in choose_candidate allCandidates maxUsage 3 u)"

text \<open>
  \<open>MosaicWorker.selectBestTileWithNeighborConstraint\<close>. The first component of the result
  records whether the \<open>console.warn\<close> of the fallback branch was issued, that is, whether
  the unconstrained \<open>selectBestTile\<close> was called.
\<close>

definition selectBestTileWithNeighborConstraint ::
  "Cell \<Rightarrow> Tile list \<Rightarrow> UsageCounter \<Rightarrow> string list \<Rightarrow> Settings \<Rightarrow> random \<Rightarrow> bool \<times> (error + Tile)" where
  "selectBestTileWithNeighborConstraint cell tileMetadata usageCount neighborTiles settings u =
     (let maxUsage = maxUsage_constrained settings tileMetadata;
          excludedTileNames = set neighborTiles;
          allCandidates =
            sort_key distance
              (map (make_candidate cell usageCount settings)
                 (filter (\<lambda>t. filename t \<notin> excludedTileNames) tileMetadata))
      in if length allCandidates = 0
         then (True, selectBestTile cell tileMetadata usageCount settings u)
         else (False, choose_candidate allCandidates maxUsage 4 u))"

text \<open>
  The placement map has keys \<open>`${x},${y}`\<close>; the pair of coordinates stands for that string.
  \<open>getNeighborTiles\<close> keeps a neighbour only if the looked-up name is truthy (present and
  not the empty string).
\<close>

type_synonym TileMap = "nat \<times> nat \<Rightarrow> string option"

definition directions :: "(int \<times> int) list" where
  "directions = [(-1, 0), (1, 0), (0, -1), (0, 1)]"

definition getNeighborTiles :: "nat \<Rightarrow> nat \<Rightarrow> TileMap \<Rightarrow> nat \<Rightarrow> string list" where
  "getNeighborTiles x y tileMap gsize =
     concat (map (\<lambda>(dx, dy).
        (let nx = int x + dx; ny = int y + dy
         in if nx \<ge> 0 \<and> nx < int gsize \<and> ny \<ge> 0 \<and> ny < int gsize
            then (case tileMap (nat nx, nat ny) of
                    None \<Rightarrow> []
                  | Some neighborTile \<Rightarrow> if neighborTile \<noteq> [] then [neighborTile] else [])
            else [])) directions)"

record Placement =
  place_x :: nat
  place_y :: nat
  place_tile :: string
  tileMetadata :: Tile

record SourceData =
  src_gridSize :: nat
  cellWidth :: nat
  cellHeight :: nat
  cells :: "Cell list"

text \<open>
  The state of the loop of \<open>generateMosaicGrid\<close>: \<open>result.tiles\<close>, \<open>tileUsageCount\<close>,
  \<open>tileMap\<close>, and the cells for which the fallback warning was logged.
\<close>

record GridState =
  tiles :: "Placement list"
  tileUsageCount :: UsageCounter
  tileMap :: TileMap
  relaxed :: "(nat \<times> nat) list"

definition initial_GridState :: GridState where
  "initial_GridState = \<lparr>tiles = [], tileUsageCount = [], tileMap = Map.empty, relaxed = []\<rparr>"

text \<open>
  What one iteration of the placement loop does besides selecting a tile and updating the
  three maps, as far as it decides whether the loop goes on: the canvas calls of
  \<open>drawTileToCanvas\<close> and the two awaited calls after the update, \<open>sendPreviewUpdate\<close> and
  \<open>checkPauseCancel\<close>. Each returns or throws; \<open>checkPauseCancel\<close> throws when it finds the
  cancel flag set and otherwise waits while the worker is paused, for ever (\<open>None\<close>) if the
  pause is never lifted. In an undisturbed iteration all three return.
\<close>

record CellEffects =
  canvas :: "error + unit"
  previewed :: "error + unit"
  checked :: "(error + unit) option"

definition undisturbed :: CellEffects where
  "undisturbed = \<lparr>canvas = Inr (), previewed = Inr (), checked = Some (Inr ())\<rparr>"

text \<open>
  \<open>drawTileToCanvas(ctx, tile, x, y, size)\<close>, as far as it returns or throws. A tile canvas
  is cached under \<open>`${tile.filename}_${size}`\<close>; on a miss the tile is restored with
  \<open>decompressImageData(tile.imageData, size)\<close>, whose \<open>new ImageData(size, size)\<close> throws
  an \<open>IndexSizeError\<close> for size 0, so that nothing is ever cached for size 0.
\<close>

definition drawTileToCanvas :: "Tile \<Rightarrow> nat \<Rightarrow> error + unit \<Rightarrow> error + unit" where
  "drawTileToCanvas t sz cv =
     (case cv of
        Inl e \<Rightarrow> Inl e
      | Inr _ \<Rightarrow> if sz = 0 then Inl IndexSizeError else Inr ())"

text \<open>
  One iteration of \<open>for (let i = 0; i < sourceData.cells.length; i++)\<close>; \<open>u\<close> is the draw
  that decides the tie-break of the cell (the other draws only decide whether a line is logged) and \<open>fx\<close>
  what the canvas, the preview and the pause/cancel check do in this iteration. An
  exception thrown by the selection, by \<open>drawTileToCanvas\<close> (before the maps are updated),
  by \<open>sendPreviewUpdate\<close> (called when \<open>i % 100 === 0\<close>) or by \<open>checkPauseCancel\<close> leaves
  the loop. A selection that returns, returns a tile object, so \<open>if (selectedTile)\<close> is
  taken.
\<close>

definition place_cell ::
  "Settings \<Rightarrow> Tile list \<Rightarrow> nat \<Rightarrow> random \<Rightarrow> nat \<Rightarrow> CellEffects \<Rightarrow> Cell \<Rightarrow> GridState
     \<Rightarrow> (error + GridState) option" where
  "place_cell settings tileMeta gsize u i fx cell st =
     (let sel =
            (if neighborDiversity settings = ''enabled''
             then (let neighborTiles = getNeighborTiles (cell_x cell) (cell_y cell) (tileMap st) gsize
                   in selectBestTileWithNeighborConstraint cell tileMeta (tileUsageCount st)
                        neighborTiles settings u)
             else (False, selectBestTile cell tileMeta (tileUsageCount st) settings u))
      in case snd sel of
           Inl e \<Rightarrow> Some (Inl e)
         | Inr selectedTile \<Rightarrow>
             (case drawTileToCanvas selectedTile (tileSize settings) (canvas fx) of
                Inl e \<Rightarrow> Some (Inl e)
              | Inr _ \<Rightarrow>
                  (let currentCount = usage_of (tileUsageCount st) (filename selectedTile);
                       st' = \<lparr>tiles = tiles st @
                                [\<lparr>place_x = cell_x cell, place_y = cell_y cell,
                                  place_tile = filename selectedTile, tileMetadata = selectedTile\<rparr>],
                              tileUsageCount =
                                usage_set (filename selectedTile) (currentCount + 1) (tileUsageCount st),
                              tileMap = (tileMap st)((cell_x cell, cell_y cell) \<mapsto> filename selectedTile),
                              relaxed = (if fst sel then relaxed st @ [(cell_x cell, cell_y cell)]
                                         else relaxed st)\<rparr>
                   in case (if i mod 100 = 0 then previewed fx else Inr ()) of
                        Inl e \<Rightarrow> Some (Inl e)
                      | Inr _ \<Rightarrow>
                          (case checked fx of
                             None \<Rightarrow> None
                           | Some (Inl e) \<Rightarrow> Some (Inl e)
                           | Some (Inr _) \<Rightarrow> Some (Inr st')))))"

fun place_cells ::
  "Settings \<Rightarrow> Tile list \<Rightarrow> nat \<Rightarrow> (nat \<Rightarrow> random) \<Rightarrow> (nat \<Rightarrow> CellEffects) \<Rightarrow> nat \<Rightarrow> Cell list
     \<Rightarrow> GridState \<Rightarrow> (error + GridState) option" where
  "place_cells settings tileMeta gsize rng env i [] st = Some (Inr st)"
| "place_cells settings tileMeta gsize rng env i (cell # rest) st =
     (case place_cell settings tileMeta gsize (rng i) i (env i) cell st of
        None \<Rightarrow> None
      | Some (Inl e) \<Rightarrow> Some (Inl e)
      | Some (Inr st') \<Rightarrow> place_cells settings tileMeta gsize rng env (i + 1) rest st')"

text \<open>
  \<open>MosaicWorker.generateMosaicGrid(sourceData, tileMetadata, searchIndex, settings)\<close>: the
  final loop state, an exception, or \<open>None\<close> when the loop never ends; \<open>result.tiles\<close> is the
  \<open>tiles\<close> field of the state. \<open>rng i\<close> and \<open>env i\<close> are the draw and the effects of
  iteration \<open>i\<close>. The search index is not read.
\<close>

definition generateMosaicGrid ::
  "SourceData \<Rightarrow> Tile list \<Rightarrow> Settings \<Rightarrow> (nat \<Rightarrow> random) \<Rightarrow> (nat \<Rightarrow> CellEffects)
     \<Rightarrow> (error + GridState) option" where
  "generateMosaicGrid sourceData tileMeta settings rng env =
     place_cells settings tileMeta (src_gridSize sourceData) rng env 0 (cells sourceData)
       initial_GridState"

text \<open>
  The cells \<open>processSourceImage\<close> builds: one per grid position, rows outermost
  (\<open>for y ... for x ... cells.push({x, y, ...})\<close>).
\<close>

definition grid_positions :: "nat \<Rightarrow> (nat \<times> nat) list" where
  "grid_positions g = concat (map (\<lambda>y. map (\<lambda>x. (x, y)) [0..<g]) [0..<g])"

definition row_major :: "SourceData \<Rightarrow> bool" where
  "row_major sourceData \<longleftrightarrow>
     map (\<lambda>c. (cell_x c, cell_y c)) (cells sourceData) = grid_positions (src_gridSize sourceData)"

text \<open>
  Names for the intermediate values of \<open>choose_candidate\<close> (\<open>candidates\<close>,
  \<open>bestUsageCandidates\<close>, \<open>topCandidates\<close>, \<open>bestCandidate\<close>), used to state lemmas about
  them, and the coordinates of a cell and of a placement.
\<close>

definition chosen_pool :: "Candidate list \<Rightarrow> jsnum \<Rightarrow> Candidate list" where
  "chosen_pool allCandidates maxUsage =
     (let limitedCandidates = filter (\<lambda>candidate. js_lt (usage candidate) maxUsage) allCandidates
      in if length limitedCandidates > 0 then take 10 limitedCandidates
         else take 10 (filter (\<lambda>c. Num (usage c) = Math_min (map usage allCandidates)) allCandidates))"

definition best_usage :: "Candidate list \<Rightarrow> jsnum \<Rightarrow> Candidate list" where
  "best_usage cs mu =
     filter (\<lambda>c. Num (usage c) = Math_min (map usage (chosen_pool cs mu))) (chosen_pool cs mu)"

definition top_candidates :: "Candidate list \<Rightarrow> jsnum \<Rightarrow> nat \<Rightarrow> Candidate list" where
  "top_candidates cs mu t =
     take (max 1 (nat \<lceil>real (length (sort_key distance (best_usage cs mu))) * real t / 10\<rceil>))
       (sort_key distance (best_usage cs mu))"

definition best_candidate :: "Candidate list \<Rightarrow> jsnum \<Rightarrow> nat \<Rightarrow> random \<Rightarrow> Candidate option" where
  "best_candidate cs mu t u =
     (if length (best_usage cs mu) = 1 then js_index (best_usage cs mu) 0
      else js_index (top_candidates cs mu t) (random_index u (length (top_candidates cs mu t))))"

definition cell_pos :: "Cell \<Rightarrow> nat \<times> nat" where
  "cell_pos c = (cell_x c, cell_y c)"

definition place_pos :: "Placement \<Rightarrow> nat \<times> nat" where
  "place_pos p = (place_x p, place_y p)"

text \<open>A small concrete run: a 2 x 2 grid whose cells get lighter from left to right and top to bottom.\<close>

definition demo_tile :: "string \<Rightarrow> real \<Rightarrow> Tile" where
  "demo_tile name l =
     \<lparr>filename = name, averageColor = \<lparr>red = 0, green = 0, blue = 0\<rparr>,
      averageColorLab = \<lparr>lab_l = l, lab_a = 0, lab_b = 0\<rparr>,
      imageData = [], originalImageData = new_ImageData 0 0\<rparr>"

definition demo_cell :: "nat \<Rightarrow> nat \<Rightarrow> real \<Rightarrow> Cell" where
  "demo_cell x y l =
     \<lparr>cell_x = x, cell_y = y, cell_color = \<lparr>red = 0, green = 0, blue = 0\<rparr>,
      cell_lab = \<lparr>lab_l = l, lab_a = 0, lab_b = 0\<rparr>\<rparr>"

definition demo_settings :: Settings where
  "demo_settings = \<lparr>gridSize = 2, tileSize = 8, quality = ''low'', colorMatching = ''rgb'',
                     neighborDiversity = ''enabled''\<rparr>"

definition demo_source :: SourceData where
  "demo_source = \<lparr>src_gridSize = 2, cellWidth = 1, cellHeight = 1,
     cells = [demo_cell 0 0 10, demo_cell 1 0 20, demo_cell 0 1 30, demo_cell 1 1 40]\<rparr>"

text \<open>Horizontal or vertical neighbours in the grid.\<close>

definition adjacent :: "nat \<times> nat \<Rightarrow> nat \<times> nat \<Rightarrow> bool" where
  "adjacent p q \<longleftrightarrow>
     (snd p = snd q \<and> (fst p + 1 = fst q \<or> fst q + 1 = fst p)) \<or>
     (fst p = fst q \<and> (snd p + 1 = snd q \<or> snd q + 1 = snd p))"

text \<open>
  What the placement loop maintains when every selection avoids the neighbours: the
  placement map agrees with the placement list, holds non-empty names at grid positions
  only, has different names at adjacent positions, and no fallback was logged.
\<close>

definition diverse :: "nat \<Rightarrow> GridState \<Rightarrow> bool" where
  "diverse g st \<longleftrightarrow>
     (\<forall>p \<in> set (tiles st). tileMap st (place_pos p) = Some (place_tile p)) \<and>
     (\<forall>q b. tileMap st q = Some b \<longrightarrow> b \<noteq> [] \<and> fst q < g \<and> snd q < g) \<and>
     (\<forall>q q' b b'. tileMap st q = Some b \<and> tileMap st q' = Some b' \<and> adjacent q q' \<longrightarrow> b \<noteq> b') \<and>
     relaxed st = []"

definition neighbor_at :: "nat \<Rightarrow> nat \<Rightarrow> TileMap \<Rightarrow> nat \<Rightarrow> int \<times> int \<Rightarrow> string list" where
  "neighbor_at x y tm g d =
     (let nx = int x + fst d; ny = int y + snd d
      in if nx \<ge> 0 \<and> nx < int g \<and> ny \<ge> 0 \<and> ny < int g
         then (case tm (nat nx, nat ny) of
                 None \<Rightarrow> []
               | Some neighborTile \<Rightarrow> if neighborTile \<noteq> [] then [neighborTile] else [])
         else [])"

text \<open>A pool that carries at least five different filenames, none of them empty.\<close>

definition good_pool :: "Tile list \<Rightarrow> bool" where
  "good_pool ts \<longleftrightarrow> 5 \<le> card (set (map filename ts)) \<and> [] \<notin> set (map filename ts)"

text \<open>
  The placement list of a finished grid, the draw that always picks index 0, the
  environment in which no iteration is disturbed, and three pools.
\<close>

definition placements_of :: "(error + GridState) option \<Rightarrow> (nat \<times> nat \<times> string) list option" where
  "placements_of res =
     (case res of
        Some (Inr st) \<Rightarrow> Some (map (\<lambda>p. (place_x p, place_y p, place_tile p)) (tiles st))
      | _ \<Rightarrow> None)"

definition quiet :: "nat \<Rightarrow> CellEffects" where
  "quiet i = undisturbed"

definition first_index :: "nat \<Rightarrow> random" where
  "first_index i = 0"

definition same_name_pool :: "Tile list" where
  "same_name_pool = [demo_tile ''a'' 10, demo_tile ''a'' 20, demo_tile ''a'' 30,
                     demo_tile ''a'' 40, demo_tile ''a'' 50]"

definition five_tile_pool :: "Tile list" where
  "five_tile_pool = [demo_tile ''a'' 10, demo_tile ''b'' 20, demo_tile ''c'' 30,
                     demo_tile ''d'' 40, demo_tile ''e'' 50]"

definition six_tile_pool :: "Tile list" where
  "six_tile_pool = [demo_tile ''a'' 10, demo_tile ''a'' 15, demo_tile ''b'' 20, demo_tile ''c'' 30,
                    demo_tile ''d'' 40, demo_tile ''e'' 50]"

text \<open>
  A 3 x 3 grid and a pool of five differently named tiles, one of which has the empty
  string as its name.
\<close>

definition grid3_settings :: Settings where
  "grid3_settings = \<lparr>gridSize = 3, tileSize = 8, quality = ''low'', colorMatching = ''rgb'',
                      neighborDiversity = ''enabled''\<rparr>"

definition grid3_source :: SourceData where
  "grid3_source = \<lparr>src_gridSize = 3, cellWidth = 1, cellHeight = 1,
     cells = [demo_cell 0 0 20, demo_cell 1 0 30, demo_cell 2 0 10,
              demo_cell 0 1 40, demo_cell 1 1 50, demo_cell 2 1 10,
              demo_cell 0 2 20, demo_cell 1 2 30, demo_cell 2 2 40]\<rparr>"

definition empty_name_pool :: "Tile list" where
  "empty_name_pool = [demo_tile [] 10, demo_tile ''b'' 20, demo_tile ''c'' 30,
                      demo_tile ''d'' 40, demo_tile ''e'' 50]"

section \<open>The worker's run: control messages and terminal messages\<close>

text \<open>
  Messages the worker accepts while a run is in progress (\<open>handleMessage\<close>) and messages it
  posts. Progress and preview messages are left out; \<open>Complete\<close> and \<open>Error\<close> are the
  only messages \<open>generateMosaic\<close> posts when a run ends, and the worker has no message
  type for a cancelled run.
\<close>

datatype control = Generate | Pause | Resume | Cancel

datatype 'r message = Complete 'r | Error error | Paused | Resumed

record 'r Worker =
  isProcessing :: bool
  isPaused :: bool
  isCancelled :: bool
  outbox :: "'r message list"

definition fresh_worker :: "'r Worker" where
  "fresh_worker = \<lparr>isProcessing = False, isPaused = False, isCancelled = False, outbox = []\<rparr>"

definition sendMessage :: "'r message \<Rightarrow> 'r Worker \<Rightarrow> 'r Worker" where
  "sendMessage m w = w\<lparr>outbox := outbox w @ [m]\<rparr>"

definition pauseProcessing :: "'r Worker \<Rightarrow> 'r Worker" where
  "pauseProcessing w = sendMessage Paused (w\<lparr>isPaused := True\<rparr>)"

definition resumeProcessing :: "'r Worker \<Rightarrow> 'r Worker" where
  "resumeProcessing w = sendMessage Resumed (w\<lparr>isPaused := False\<rparr>)"

definition cancelProcessing :: "'r Worker \<Rightarrow> 'r Worker" where
  "cancelProcessing w = w\<lparr>isCancelled := True, isPaused := False\<rparr>"

text \<open>
  \<open>handleMessage\<close> as the run in progress sees it. The case \<open>'generate_mosaic'\<close> calls
  \<open>generateMosaic\<close> again, with no check of \<open>isProcessing\<close>: that call is another run on the
  same worker object, and what it does to the run in progress is what it does to the three
  flags they share, which it resets in its first three statements. The messages the other
  run posts are its own and are not entered in the outbox here.
\<close>

definition start_run :: "'r Worker \<Rightarrow> 'r Worker" where
  "start_run w = w\<lparr>isProcessing := True, isPaused := False, isCancelled := False\<rparr>"

fun handleMessage :: "control \<Rightarrow> 'r Worker \<Rightarrow> 'r Worker" where
  "handleMessage Generate w = start_run w"
| "handleMessage Pause w = pauseProcessing w"
| "handleMessage Resume w = resumeProcessing w"
| "handleMessage Cancel w = cancelProcessing w"

text \<open>
  \<open>while (this.isPaused && !this.isCancelled) await sleep(100)\<close>: the argument lists, for
  each sleep in turn, the control messages handled during it. When the list is used up and
  the worker is still paused, no message will ever arrive and the loop never ends: \<open>None\<close>.
\<close>

fun poll :: "control list list \<Rightarrow> 'r Worker \<Rightarrow> 'r Worker option" where
  "poll [] w = (if isPaused w \<and> \<not> isCancelled w then None else Some w)"
| "poll (batch # rest) w =
     (if isPaused w \<and> \<not> isCancelled w then poll rest (fold handleMessage batch w) else Some w)"

definition checkPauseCancel ::
  "control list list \<Rightarrow> 'r Worker \<Rightarrow> ((error + unit) \<times> 'r Worker) option" where
  "checkPauseCancel polls w =
     (if isCancelled w then Some (Inl ProcessingCancelled, w)
      else map_option (\<lambda>w'. (Inr (), w')) (poll polls w))"

text \<open>
  The body of the \<open>try\<close> block of \<open>generateMosaic\<close> as the sequence of things that matter
  to its outcome: an \<open>await\<close> that lets the event loop handle control messages; a call of
  \<open>checkPauseCancel\<close> whose exception leaves the body (in \<open>processSourceImage\<close>,
  \<open>analyzeColors\<close> and \<open>generateMosaicGrid\<close>); the call of \<open>checkPauseCancel\<close> at the end
  of a batch in \<open>processTileImages\<close>, which stands in a \<open>try\<close> block whose \<open>catch\<close> logs the
  exception and goes on with the next batch; and a piece of a stage that returns, throws,
  or never returns.
\<close>

datatype step =
    Await "control list"
  | CheckPauseCancel "control list list"
  | BatchCheckPauseCancel "control list list"
  | Stage "(error + unit) option"

fun run_stages :: "step list \<Rightarrow> 'r Worker \<Rightarrow> ((error + unit) \<times> 'r Worker) option" where
  "run_stages [] w = Some (Inr (), w)"
| "run_stages (Await cs # rest) w = run_stages rest (fold handleMessage cs w)"
| "run_stages (CheckPauseCancel polls # rest) w =
     (case checkPauseCancel polls w of
        None \<Rightarrow> None
      | Some (Inl e, w') \<Rightarrow> Some (Inl e, w')
      | Some (Inr _, w') \<Rightarrow> run_stages rest w')"
| "run_stages (BatchCheckPauseCancel polls # rest) w =
     (case checkPauseCancel polls w of
        None \<Rightarrow> None
      | Some (_, w') \<Rightarrow> run_stages rest w')"
| "run_stages (Stage None # rest) w = None"
| "run_stages (Stage (Some (Inl e)) # rest) w = Some (Inl e, w)"
| "run_stages (Stage (Some (Inr _)) # rest) w = run_stages rest w"

text \<open>
  \<open>MosaicWorker.generateMosaic\<close>:
  \<open>try { ...stages...; this.sendComplete(finalResult) }
    catch (error) { if (!this.isCancelled) this.sendError(error.message) }
    finally { this.isProcessing = false; this.cleanup() }\<close>.
  \<open>None\<close>: the run never ends.
\<close>

definition generateMosaic :: "step list \<Rightarrow> 'r \<Rightarrow> 'r Worker \<Rightarrow> 'r Worker option" where
  "generateMosaic body finalResult w0 =
     (case run_stages body (start_run w0) of
        None \<Rightarrow> None
      | Some (Inr _, w) \<Rightarrow> Some ((sendMessage (Complete finalResult) w)\<lparr>isProcessing := False\<rparr>)
      | Some (Inl e, w) \<Rightarrow>
          Some ((if \<not> isCancelled w then sendMessage (Error e) w else w)\<lparr>isProcessing := False\<rparr>))"

fun is_terminal :: "'r message \<Rightarrow> bool" where
  "is_terminal (Complete _) = True"
| "is_terminal (Error _) = True"
| "is_terminal _ = False"

text \<open>The control messages a step lets in.\<close>

fun delivered :: "step \<Rightarrow> control list" where
  "delivered (Await cs) = cs"
| "delivered (CheckPauseCancel polls) = concat polls"
| "delivered (BatchCheckPauseCancel polls) = concat polls"
| "delivered (Stage _) = []"

definition never_cancelled :: "step list \<Rightarrow> bool" where
  "never_cancelled body \<longleftrightarrow> Cancel \<notin> set (concat (map delivered body))"

text \<open>A stage of the run that makes a call which returns a value, throws, or never returns.\<close>

definition stage_of :: "(error + 'a) option \<Rightarrow> step" where
  "stage_of res = Stage (map_option (\<lambda>r. case r of Inl e \<Rightarrow> Inl e | Inr _ \<Rightarrow> Inr ()) res)"

text \<open>The terminal messages a run has posted when it ends (\<open>None\<close> if it never ends).\<close>

definition terminal_messages :: "'r Worker option \<Rightarrow> 'r message list option" where
  "terminal_messages res = map_option (\<lambda>w. filter is_terminal (outbox w)) res"

text \<open>
  The terminal messages posted between two states of the worker, of which the second comes
  after the first (the outbox only grows).
\<close>

definition terminal_of_run :: "'r Worker \<Rightarrow> 'r Worker \<Rightarrow> 'r message list" where
  "terminal_of_run w0 w =
     drop (length (filter is_terminal (outbox w0))) (filter is_terminal (outbox w))"

text \<open>
  The steps of a run over a 1 x 1 grid and one batch of tiles up to the first iteration
  of the placement loop: the checks of \<open>processSourceImage\<close>, \<open>processTileImages\<close> and
  \<open>analyzeColors\<close>, then the selection and drawing of the cell, the \<open>await\<close> of
  \<open>sendPreviewUpdate\<close> during which the given control messages are handled, and the check
  at the end of the iteration.
\<close>

definition first_cell_run :: "control list \<Rightarrow> step list" where
  "first_cell_run cs =
     [CheckPauseCancel [], BatchCheckPauseCancel [], CheckPauseCancel [],
      Stage (Some (Inr ())), Await cs, CheckPauseCancel []]"

section \<open>Average colour of a tile\<close>

text \<open>
  \<open>data[i]\<close> as a number to add: \<open>undefined\<close> outside the array, which turns a running
  sum into \<open>NaN\<close>. A sum is \<open>Some\<close> of its value or \<open>None\<close> for \<open>NaN\<close>.
\<close>

definition read_byte :: "8 word list \<Rightarrow> nat \<Rightarrow> nat option" where
  "read_byte d i = (if i < length d then Some (unat (d ! i)) else None)"

fun acc_add :: "nat option \<Rightarrow> nat option \<Rightarrow> nat option" where
  "acc_add (Some s) (Some v) = Some (s + v)"
| "acc_add _ _ = None"

text \<open>\<open>for (let i = 0; i < data.length; i += 4) { r += data[i]; g += data[i + 1]; b += data[i + 2]; }\<close>\<close>

function average_loop ::
  "8 word list \<Rightarrow> nat \<Rightarrow> nat option \<times> nat option \<times> nat option
     \<Rightarrow> nat option \<times> nat option \<times> nat option" where
  "average_loop d i (rs, gs, bs) =
     (if i < length d
      then average_loop d (i + 4)
             (acc_add rs (read_byte d i), acc_add gs (read_byte d (i + 1)),
              acc_add bs (read_byte d (i + 2)))
      else (rs, gs, bs))"
  by pat_completeness auto
termination
  by (relation "measure (\<lambda>(d, i, acc). length d - i)") auto

declare average_loop.simps [simp del]

text \<open>
  \<open>Math.round(sum / pixelCount)\<close> with \<open>pixelCount = data.length / 4\<close>: \<open>NaN\<close> for a
  \<open>NaN\<close> sum and for \<open>0 / 0\<close>; otherwise the nearest whole number, halves rounded up.
\<close>

definition Math_round_div :: "nat option \<Rightarrow> real \<Rightarrow> real option" where
  "Math_round_div s pixelCount =
     (case s of
        None \<Rightarrow> None
      | Some v \<Rightarrow> if pixelCount = 0 then None
                  else Some (of_int \<lfloor>real v / pixelCount + 1 / 2\<rfloor>))"

text \<open>
  \<open>MosaicWorker.calculateAverageColor(imageData)\<close> (the same body is in
  \<open>ImageProcessor\<close> and in \<open>ColorUtils\<close>). \<open>None\<close> stands for a colour object with a
  \<open>NaN\<close> channel, which only a buffer without pixels or a truncated buffer gives.
\<close>

definition calculateAverageColor :: "ImageData \<Rightarrow> Color option" where
  "calculateAverageColor img =
     (let d = data img;
          pixelCount = real (length d) / 4;
          (rs, gs, bs) = average_loop d 0 (Some 0, Some 0, Some 0)
      in case (Math_round_div rs pixelCount, Math_round_div gs pixelCount,
               Math_round_div bs pixelCount) of
           (Some rv, Some gv, Some bv) \<Rightarrow> Some \<lparr>red = rv, green = gv, blue = bv\<rparr>
         | _ \<Rightarrow> None)"

text \<open>
  \<open>TileManager.calculateAverageColor(imageData)\<close>, the main thread's copy: a pixel is
  added only if \<open>data[i + 3] > 0\<close> ("Check transparency"; false for \<open>undefined\<close>), the sums
  are divided by the number of pixels added, and an image without a visible pixel is white.
\<close>

function TileManager_average_loop ::
  "8 word list \<Rightarrow> nat \<Rightarrow> nat \<times> nat \<times> nat \<times> nat \<Rightarrow> nat \<times> nat \<times> nat \<times> nat" where
  "TileManager_average_loop d i (r, g, b, count) =
     (if i < length d
      then TileManager_average_loop d (i + 4)
             (if i + 3 < length d \<and> 0 < unat (d ! (i + 3))
              then (r + unat (d ! i), g + unat (d ! (i + 1)), b + unat (d ! (i + 2)), count + 1)
              else (r, g, b, count))
      else (r, g, b, count))"
  by pat_completeness auto
termination
  by (relation "measure (\<lambda>(d, i, acc). length d - i)") auto

declare TileManager_average_loop.simps [simp del]

definition TileManager_calculateAverageColor :: "ImageData \<Rightarrow> Color" where
  "TileManager_calculateAverageColor img =
     (let (r, g, b, count) = TileManager_average_loop (data img) 0 (0, 0, 0, 0)
      in if 0 < count
         then \<lparr>red = of_int \<lfloor>real r / real count + 1 / 2\<rfloor>,
               green = of_int \<lfloor>real g / real count + 1 / 2\<rfloor>,
               blue = of_int \<lfloor>real b / real count + 1 / 2\<rfloor>\<rparr>
         else \<lparr>red = 255, green = 255, blue = 255\<rparr>)"

text \<open>
  The tile file the main thread sends and the \<open>averageColor\<close> field of the metadata that
  \<open>extractTileMetadata(file, tileSize)\<close> returns for it.
\<close>

record TileFile =
  file_name :: string
  file_size :: nat
  file_imageData :: ImageData

definition extractTileMetadata_averageColor :: "TileFile \<Rightarrow> Color option" where
  "extractTileMetadata_averageColor file = calculateAverageColor (file_imageData file)"

text \<open>
  The \<open>imageData\<close> field of the same metadata, \<open>this.compressImageData(imageData)\<close>,
  and the metadata of the gradient thumbnail.
\<close>

definition extractTileMetadata_imageData :: "TileFile \<Rightarrow> 16 word list" where
  "extractTileMetadata_imageData file = compressImageData (file_imageData file)"

definition gradient_file :: TileFile where
  "gradient_file = \<lparr>file_name = ''gradient.png'', file_size = 16384, file_imageData = gradient_image\<rparr>"

definition gradient_tile :: Tile where
  "gradient_tile =
     \<lparr>filename = file_name gradient_file,
      averageColor = \<lparr>red = 126, green = 126, blue = 0\<rparr>,
      averageColorLab = rgbToLab \<lparr>red = 126, green = 126, blue = 0\<rparr>,
      imageData = extractTileMetadata_imageData gradient_file,
      originalImageData = file_imageData gradient_file\<rparr>"

text \<open>
  The specification's wording, for comparison: the alpha-weighted mean of the pixels,
  skipping fully transparent ones. \<open>pixels_of\<close> lists the RGBA quadruples of a buffer.
\<close>

definition pixels_of :: "8 word list \<Rightarrow> (nat \<times> nat \<times> nat \<times> nat) list" where
  "pixels_of d =
     map (\<lambda>k. (unat (d ! (4 * k)), unat (d ! (4 * k + 1)), unat (d ! (4 * k + 2)),
               unat (d ! (4 * k + 3)))) [0..<length d div 4]"

definition spec_alpha_weighted_average :: "ImageData \<Rightarrow> Color option" where
  "spec_alpha_weighted_average img =
     (let visible = filter (\<lambda>(r, g, b, a). a > 0) (pixels_of (data img));
          weight = sum_list (map (\<lambda>(r, g, b, a). a) visible)
      in if weight = 0 then None
         else Some \<lparr>red = of_int \<lfloor>real (sum_list (map (\<lambda>(r, g, b, a). a * r) visible)) / real weight + 1 / 2\<rfloor>,
                    green = of_int \<lfloor>real (sum_list (map (\<lambda>(r, g, b, a). a * g) visible)) / real weight + 1 / 2\<rfloor>,
                    blue = of_int \<lfloor>real (sum_list (map (\<lambda>(r, g, b, a). a * b) visible)) / real weight + 1 / 2\<rfloor>\<rparr>)"

text \<open>A 2 x 1 image: a fully transparent red pixel and an opaque black one; and two colours.\<close>

definition two_pixel_image :: ImageData where
  "two_pixel_image = \<lparr>width = 2, height = 1, data = [255, 0, 0, 0, 0, 0, 0, 255]\<rparr>"

definition pure_red :: Color where
  "pure_red = \<lparr>red = 255, green = 0, blue = 0\<rparr>"

definition black :: Color where
  "black = \<lparr>red = 0, green = 0, blue = 0\<rparr>"

section \<open>High-resolution reconstruction\<close>

text \<open>
  \<open>generateHighResolutionMosaic(resultData)\<close> of the main thread. \<open>resultData\<close>, its
  \<open>tileMap\<close> and its \<open>gridInfo\<close> may be missing (\<open>None\<close>). The function returns a canvas
  or \<open>null\<close> and shows notifications; it never assigns to \<open>resultData\<close> or \<open>gridInfo\<close>,
  so the result data after the call is the one passed in.
\<close>

record GridInfo =
  gi_gridSize :: nat
  gi_tileSize :: nat

record ResultData =
  res_tileMap :: "Placement list option"
  res_gridInfo :: "GridInfo option"

datatype notification =
    Info string
  | TileSizeAdjusted nat
  | ErrorNote string
  | Success string

datatype null_reason = MissingData | SizeLimit | CanvasCreationFailed

record HighResOutcome =
  hr_canvas :: "(nat \<times> nat) option"
  hr_null_reason :: "null_reason option"
  hr_notifications :: "notification list"
  hr_resultData :: "ResultData option"

definition maxCanvasSize :: nat where
  "maxCanvasSize = 32767"

definition maxGridSizeFor256 :: nat where
  "maxGridSizeFor256 = maxCanvasSize div 256"

text \<open>
  \<open>let highResTileSize = 256; if (gridInfo.gridSize > maxGridSizeFor256)
  highResTileSize = Math.floor(maxCanvasSize / gridInfo.gridSize);\<close>
\<close>

definition highResTileSize :: "GridInfo \<Rightarrow> nat" where
  "highResTileSize gridInfo =
     (if gi_gridSize gridInfo > maxGridSizeFor256
      then maxCanvasSize div gi_gridSize gridInfo
      else 256)"

text \<open>
  The progress notifications of the drawing loop and the console output are left out;
  drawing tiles does not change the size of the canvas. A canvas of width 0 makes the
  function return \<open>null\<close> at its "canvas creation failed" check.
\<close>

definition generateHighResolutionMosaic :: "ResultData option \<Rightarrow> HighResOutcome" where
  "generateHighResolutionMosaic resultData =
     (case resultData of
        None \<Rightarrow> \<lparr>hr_canvas = None, hr_null_reason = Some MissingData, hr_notifications = [],
                  hr_resultData = resultData\<rparr>
      | Some rd \<Rightarrow>
         (case (res_tileMap rd, res_gridInfo rd) of
            (Some tm, Some gridInfo) \<Rightarrow>
              (let start = [Info ''generating-high-res''];
                   ts = highResTileSize gridInfo;
                   notes = (if gi_gridSize gridInfo > maxGridSizeFor256
                            then start @ [TileSizeAdjusted ts] else start);
                   fullWidth = gi_gridSize gridInfo * ts;
                   fullHeight = gi_gridSize gridInfo * ts
               in if fullWidth > maxCanvasSize \<or> fullHeight > maxCanvasSize
                  then \<lparr>hr_canvas = None, hr_null_reason = Some SizeLimit,
                        hr_notifications = notes @ [ErrorNote ''image-size-limit''],
                        hr_resultData = resultData\<rparr>
                  else if fullWidth = 0 \<or> fullHeight = 0
                  then \<lparr>hr_canvas = None, hr_null_reason = Some CanvasCreationFailed,
                        hr_notifications = notes, hr_resultData = resultData\<rparr>
                  else \<lparr>hr_canvas = Some (fullWidth, fullHeight), hr_null_reason = None,
                        hr_notifications = notes @ [Success ''high-res-complete''],
                        hr_resultData = resultData\<rparr>)
          | _ \<Rightarrow> \<lparr>hr_canvas = None, hr_null_reason = Some MissingData, hr_notifications = [],
                    hr_resultData = resultData\<rparr>))"

text \<open>The result of a run with a 150 x 150 grid of 32-pixel tiles, and the tile size its \<open>gridInfo\<close> shows after a call.\<close>

definition result_150 :: ResultData where
  "result_150 = \<lparr>res_tileMap = Some [], res_gridInfo = Some \<lparr>gi_gridSize = 150, gi_tileSize = 32\<rparr>\<rparr>"

definition reported_tileSize :: "HighResOutcome \<Rightarrow> nat option" where
  "reported_tileSize out =
     (case hr_resultData out of
        None \<Rightarrow> None
      | Some rd \<Rightarrow> map_option gi_tileSize (res_gridInfo rd))"

section \<open>The LRU cache\<close>

text \<open>
  Keys of the underlying \<open>Map\<close> are modelled as strings or whole numbers; the empty
  string and 0 are the falsy ones. Values are the kinds \<open>estimateMemorySize\<close>
  distinguishes. The \<open>Map\<close> is an association list in insertion order.
\<close>

datatype jskey = KStr string | KNum int

fun truthy :: "jskey \<Rightarrow> bool" where
  "truthy (KStr s) = (s \<noteq> [])"
| "truthy (KNum n) = (n \<noteq> 0)"

datatype cache_value =
    CanvasValue nat nat
  | ImageDataValue ImageData
  | Uint16ArrayValue "16 word list"
  | Uint8ArrayValue "8 word list"
  | OtherValue

fun estimateMemorySize :: "cache_value \<Rightarrow> nat" where
  "estimateMemorySize (CanvasValue w h) = w * h * 4"
| "estimateMemorySize (ImageDataValue img) = length (data img)"
| "estimateMemorySize (Uint16ArrayValue xs) = length xs * 2"
| "estimateMemorySize (Uint8ArrayValue xs) = length xs"
| "estimateMemorySize OtherValue = 1024"

text \<open>
  The two limits are whatever numbers the constructor is given: any real number,
  \<open>Infinity\<close>, \<open>-Infinity\<close> or \<open>NaN\<close>. The byte total and the number of entries are whole
  numbers; \<open>x > y\<close>, \<open>x >= y\<close> and \<open>x <= y\<close> compare a whole number with a limit, every
  comparison with \<open>NaN\<close> being false.
\<close>

datatype jsnumber = Finite real | Infinity | NegInfinity | NotANumber

fun js_gt :: "int \<Rightarrow> jsnumber \<Rightarrow> bool" where
  "js_gt x (Finite r) = (of_int x > r)"
| "js_gt x Infinity = False"
| "js_gt x NegInfinity = True"
| "js_gt x NotANumber = False"

fun js_ge :: "int \<Rightarrow> jsnumber \<Rightarrow> bool" where
  "js_ge x (Finite r) = (of_int x \<ge> r)"
| "js_ge x Infinity = False"
| "js_ge x NegInfinity = True"
| "js_ge x NotANumber = False"

fun js_le :: "int \<Rightarrow> jsnumber \<Rightarrow> bool" where
  "js_le x (Finite r) = (of_int x \<le> r)"
| "js_le x Infinity = True"
| "js_le x NegInfinity = False"
| "js_le x NotANumber = False"

record LRUCache =
  maxSize :: jsnumber
  maxMemory :: jsnumber
  cache :: "(jskey \<times> cache_value) list"
  currentMemory :: int

text \<open>\<open>new LRUCache(maxSize, maxMemory)\<close>\<close>

definition new_LRUCache :: "jsnumber \<Rightarrow> jsnumber \<Rightarrow> LRUCache" where
  "new_LRUCache ms mm = \<lparr>maxSize = ms, maxMemory = mm, cache = [], currentMemory = 0\<rparr>"

text \<open>
  \<open>get(key)\<close>: a hit moves the entry to the end of the \<open>Map\<close> (\<open>this.cache.delete(key);
  this.cache.set(key, value)\<close>) and returns the value; a miss returns \<open>null\<close>.
\<close>

definition LRUCache_get :: "jskey \<Rightarrow> LRUCache \<Rightarrow> cache_value option \<times> LRUCache" where
  "LRUCache_get key c =
     (case map_of (cache c) key of
        None \<Rightarrow> (None, c)
      | Some v \<Rightarrow> (Some v, c\<lparr>cache := filter (\<lambda>e. fst e \<noteq> key) (cache c) @ [(key, v)]\<rparr>))"

text \<open>\<open>clear()\<close>\<close>

definition LRUCache_clear :: "LRUCache \<Rightarrow> LRUCache" where
  "LRUCache_clear c = c\<lparr>cache := [], currentMemory := 0\<rparr>"

definition LRUCache_has :: "jskey \<Rightarrow> LRUCache \<Rightarrow> bool" where
  "LRUCache_has key c \<longleftrightarrow> map_of (cache c) key \<noteq> None"

text \<open>\<open>delete(key)\<close>; the returned flag is dropped.\<close>

definition LRUCache_delete :: "jskey \<Rightarrow> LRUCache \<Rightarrow> LRUCache" where
  "LRUCache_delete key c =
     (case map_of (cache c) key of
        None \<Rightarrow> c
      | Some v \<Rightarrow> c\<lparr>currentMemory := currentMemory c - int (estimateMemorySize v),
                     cache := filter (\<lambda>e. fst e \<noteq> key) (cache c)\<rparr>)"

text \<open>
  \<open>evictLRU()\<close>: \<open>const firstKey = this.cache.keys().next().value;
  if (firstKey) this.delete(firstKey);\<close>
\<close>

definition evictLRU :: "LRUCache \<Rightarrow> LRUCache" where
  "evictLRU c =
     (case cache c of
        [] \<Rightarrow> c
      | (firstKey, v) # rest \<Rightarrow> if truthy firstKey then LRUCache_delete firstKey c else c)"

text \<open>
  The loop of \<open>set\<close>:
  \<open>while (this.currentMemory + memorySize > this.maxMemory || this.cache.size >= this.maxSize)
    this.evictLRU();\<close>. \<open>None\<close>: the loop never ends.
\<close>

partial_function (option) evict_while :: "nat \<Rightarrow> LRUCache \<Rightarrow> LRUCache option" where
  "evict_while memorySize c =
     (if js_gt (currentMemory c + int memorySize) (maxMemory c)
         \<or> js_ge (int (length (cache c))) (maxSize c)
      then evict_while memorySize (evictLRU c)
      else Some c)"

text \<open>\<open>set(key, value)\<close>\<close>

definition LRUCache_set :: "jskey \<Rightarrow> cache_value \<Rightarrow> LRUCache \<Rightarrow> LRUCache option" where
  "LRUCache_set key v c =
     (let memorySize = estimateMemorySize v
      in case evict_while memorySize c of
           None \<Rightarrow> None
         | Some c1 \<Rightarrow>
             (let c2 = (case map_of (cache c1) key of
                          None \<Rightarrow> c1
                        | Some oldValue \<Rightarrow>
                            c1\<lparr>currentMemory := currentMemory c1 - int (estimateMemorySize oldValue),
                               cache := filter (\<lambda>e. fst e \<noteq> key) (cache c1)\<rparr>)
              in Some (c2\<lparr>cache := cache c2 @ [(key, v)],
                          currentMemory := currentMemory c2 + int memorySize\<rparr>)))"

text \<open>
  The caches a program can come to: built by the constructor and changed by the methods
  only.
\<close>

inductive reachable :: "LRUCache \<Rightarrow> bool" where
  constructed: "reachable (new_LRUCache ms mm)"
| after_set: "reachable c \<Longrightarrow> LRUCache_set key v c = Some c' \<Longrightarrow> reachable c'"
| after_get: "reachable c \<Longrightarrow> reachable (snd (LRUCache_get key c))"
| after_delete: "reachable c \<Longrightarrow> reachable (LRUCache_delete key c)"
| after_evictLRU: "reachable c \<Longrightarrow> reachable (evictLRU c)"
| after_clear: "reachable c \<Longrightarrow> reachable (LRUCache_clear c)"

text \<open>
  What the methods keep true of a cache: keys occur once and the tracked byte total is the
  sum of the estimates of the stored values. \<open>truthy_keys\<close>: no stored key is falsy.
  \<open>whole_capacity\<close>: a limit that is a whole number of at least 1, or \<open>Infinity\<close>.
\<close>

definition tracked :: "LRUCache \<Rightarrow> bool" where
  "tracked c \<longleftrightarrow>
     distinct (map fst (cache c)) \<and>
     currentMemory c = int (sum_list (map (\<lambda>e. estimateMemorySize (snd e)) (cache c)))"

definition truthy_keys :: "LRUCache \<Rightarrow> bool" where
  "truthy_keys c \<longleftrightarrow> list_all (\<lambda>e. truthy (fst e)) (cache c)"

fun whole_capacity :: "jsnumber \<Rightarrow> bool" where
  "whole_capacity (Finite r) = (r = of_int \<lfloor>r\<rfloor> \<and> 1 \<le> r)"
| "whole_capacity Infinity = True"
| "whole_capacity NegInfinity = False"
| "whole_capacity NotANumber = False"

text \<open>The loop cannot make progress: its condition holds and eviction changes nothing.\<close>

definition stalled :: "nat \<Rightarrow> LRUCache \<Rightarrow> bool" where
  "stalled memorySize c \<longleftrightarrow>
     (js_gt (currentMemory c + int memorySize) (maxMemory c)
      \<or> js_ge (int (length (cache c))) (maxSize c))
     \<and> evictLRU c = c"

text \<open>
  Caches used below: one of capacity 2 after \<open>set('a', ...)\<close> and \<open>set('b', ...)\<close>, and one
  of capacity 1.5 after \<open>set('a', ...)\<close>; the values are one-byte arrays.
\<close>

definition one_byte :: cache_value where
  "one_byte = Uint8ArrayValue [0]"

definition two_of_two :: LRUCache where
  "two_of_two = \<lparr>maxSize = Finite 2, maxMemory = Finite 67108864,
                  cache = [(KStr ''a'', one_byte), (KStr ''b'', one_byte)], currentMemory = 2\<rparr>"

definition one_of_one_and_a_half :: LRUCache where
  "one_of_one_and_a_half = \<lparr>maxSize = Finite (3 / 2), maxMemory = Finite 67108864,
                             cache = [(KStr ''a'', one_byte)], currentMemory = 1\<rparr>"

section \<open>Properties of the RGB565 codec\<close>

lemma pack_bits_tb:
  fixes r g b :: nat
  defines "p \<equiv> push_bit 11 (take_bit 5 r) OR push_bit 5 (take_bit 6 g) OR take_bit 5 b"
  shows "take_bit 16 p = p" "drop_bit 11 p = take_bit 5 r" "drop_bit 5 p AND 63 = take_bit 6 g" "p AND 31 = take_bit 5 b"
proof -
  have m63: "(63::nat) = mask 6" by (simp add: mask_eq_exp_minus_1)
  have m31: "(31::nat) = mask 5" by (simp add: mask_eq_exp_minus_1)
  show "take_bit 16 p = p" unfolding p_def
    by (rule bit_eqI) (auto simp add: bit_simps)
  show "drop_bit 11 p = take_bit 5 r" unfolding p_def
    by (rule bit_eqI) (auto simp add: bit_simps)
  show "drop_bit 5 p AND 63 = take_bit 6 g" unfolding p_def m63
    by (rule bit_eqI) (auto simp add: bit_simps)
  show "p AND 31 = take_bit 5 b" unfolding p_def m31
    by (rule bit_eqI) (auto simp add: bit_simps)
qed

lemma pack_bits:
  fixes r g b :: nat
  assumes "r < 32" "g < 64" "b < 32"
  defines "p \<equiv> push_bit 11 r OR push_bit 5 g OR b"
  shows "p < 65536" "drop_bit 11 p = r" "drop_bit 5 p AND 63 = g" "p AND 31 = b"
proof -
  have r: "take_bit 5 r = r" using assms by (simp add: take_bit_nat_eq_self_iff)
  have g: "take_bit 6 g = g" using assms by (simp add: take_bit_nat_eq_self_iff)
  have b: "take_bit 5 b = b" using assms by (simp add: take_bit_nat_eq_self_iff)
  note tb = pack_bits_tb [of r g b, unfolded r g b, folded p_def]
  have "take_bit 16 p < 2 ^ 16" by (rule take_bit_nat_less_exp)
  then show "p < 65536" using tb(1) by simp
  show "drop_bit 11 p = r" "drop_bit 5 p AND 63 = g" "p AND 31 = b" using tb by simp_all
qed

lemma byte_at_less: "byte_at d i < 256"
proof -
  have "unat (w :: 8 word) < 256" for w using unsigned_less [of w, where 'a = nat] by simp
  then show ?thesis by (simp add: byte_at_def)
qed

lemma unpack_pack:
  "unpack_r (pack565 d i) = byte_at d i div 8 * 8"
  "unpack_g (pack565 d i) = byte_at d (i + 1) div 4 * 4"
  "unpack_b (pack565 d i) = byte_at d (i + 2) div 8 * 8"
proof -
  let ?r = "byte_at d i div 8" and ?g = "byte_at d (i + 1) div 4" and ?b = "byte_at d (i + 2) div 8"
  let ?p = "push_bit 11 ?r OR push_bit 5 ?g OR ?b"
  have r: "?r < 32" using byte_at_less [of d i] by simp
  have g: "?g < 64" using byte_at_less [of d "i + 1"] by simp
  have b: "?b < 32" using byte_at_less [of d "i + 2"] by simp
  note pb = pack_bits [OF r g b]
  have u: "unat (word_of_nat ?p :: 16 word) = ?p"
    using pb(1) by (simp add: unat_of_nat)
  have pk: "pack565 d i = word_of_nat ?p" unfolding pack565_def Let_def ..
  show "unpack_r (pack565 d i) = ?r * 8" by (simp only: pk unpack_r_def u pb)
  show "unpack_g (pack565 d i) = ?g * 4" by (simp only: pk unpack_g_def u pb)
  show "unpack_b (pack565 d i) = ?b * 8" by (simp only: pk unpack_b_def u pb)
qed

lemma unat_clamp8: "v \<le> 255 \<Longrightarrow> unat (clamp8 v) = v"
  by (simp add: clamp8_def unat_of_nat)

lemma compress_loop_length: "length (compress_loop d i c) = length c"
  by (induction d i c rule: compress_loop.induct) (subst compress_loop.simps, simp)

lemma compress_loop_nth:
  "i mod 4 = 0 \<Longrightarrow> k < length c \<Longrightarrow>
   compress_loop d i c ! k = (if i div 4 \<le> k \<and> 4 * k < length d then pack565 d (4 * k) else c ! k)"
proof (induction d i c rule: compress_loop.induct)
  case (1 d i c)
  show ?case
  proof (cases "i < length d")
    case False
    then show ?thesis using "1.prems" by (subst compress_loop.simps) auto
  next
    case True
    have m: "(i + 4) mod 4 = 0" using "1.prems" by presburger
    have d: "(i + 4) div 4 = Suc (i div 4)" by simp
    have e: "4 * (i div 4) = i" using "1.prems" by presburger
    show ?thesis
      using True "1.IH" [OF True m] "1.prems" e
      by (subst compress_loop.simps) (auto simp add: d nth_list_update not_less_eq_eq le_Suc_eq)
  qed
qed

lemma decompress_loop_length: "length (decompress_loop c i d) = length d"
  by (induction c i d rule: decompress_loop.induct) (subst decompress_loop.simps, simp)

lemma decompress_loop_nth:
  "j < length d \<Longrightarrow>
   decompress_loop c i d ! j =
     (if i \<le> j div 4 \<and> j div 4 < length c then channel (c ! (j div 4)) (j mod 4) else d ! j)"
proof (induction c i d arbitrary: rule: decompress_loop.induct)
  case (1 c i d)
  show ?case
  proof (cases "i < length c")
    case False
    then show ?thesis by (subst decompress_loop.simps) auto
  next
    case True
    let ?d' = "d[i * 4 := clamp8 (unpack_r (c ! i)),
                i * 4 + 1 := clamp8 (unpack_g (c ! i)),
                i * 4 + 2 := clamp8 (unpack_b (c ! i)),
                i * 4 + 3 := clamp8 255]"
    have len: "j < length ?d'" using "1.prems" by simp
    have step: "decompress_loop c i d = decompress_loop c (i + 1) ?d'"
      using True by (subst decompress_loop.simps) simp
    have here: "j div 4 = i \<Longrightarrow> ?d' ! j = channel (c ! i) (j mod 4)"
    proof -
      assume a: "j div 4 = i"
      have "j mod 4 = 0 \<or> j mod 4 = 1 \<or> j mod 4 = 2 \<or> j mod 4 = 3" by presburger
      moreover have "j = i * 4 + j mod 4" using a by presburger
      ultimately show ?thesis using "1.prems"
        by (auto simp add: channel_def nth_list_update)
    qed
    have other: "j div 4 \<noteq> i \<Longrightarrow> ?d' ! j = d ! j"
    proof -
      assume a: "j div 4 \<noteq> i"
      then have "j \<noteq> i * 4" "j \<noteq> i * 4 + 1" "j \<noteq> i * 4 + 2" "j \<noteq> i * 4 + 3" by presburger+
      then show ?thesis by (simp add: nth_list_update)
    qed
    show ?thesis
      unfolding step "1.IH" [OF True len]
      using here other True by (auto simp add: not_less_eq_eq le_Suc_eq)
  qed
qed


lemma uint_close:
  fixes x y :: "8 word"
  assumes "unat y = unat x div q * q" "0 < q" "q - 1 \<le> s"
  shows "\<bar>uint x - uint y\<bar> \<le> int s"
proof -
  have "unat x div q * q \<le> unat x" by simp
  moreover have "unat x - unat x div q * q < q"
    using assms(2) by (metis mod_less_divisor minus_div_mult_eq_mod)
  ultimately have "\<bar>int (unat x) - int (unat y)\<bar> \<le> int s"
    using assms by linarith
  then show ?thesis by simp
qed

lemma roundtrip_prefix:
  fixes d :: "8 word list" and n m :: nat
  assumes len: "length d = 4 * n"
  defines "out \<equiv> decompress_loop (compress_loop d 0 (replicate (length d div 4) 0)) 0
                    (replicate (4 * m) 0)"
  shows "length out = 4 * m"
    and "pixels_within_step (min n m) d out"
    and "\<forall>j. 4 * n \<le> j \<and> j < 4 * m \<longrightarrow> out ! j = 0"
proof -
  let ?c = "compress_loop d 0 (replicate (length d div 4) 0)"
  have lc: "length ?c = n" using len by (simp add: compress_loop_length)
  show lo: "length out = 4 * m" by (simp add: out_def decompress_loop_length)
  have ck: "?c ! k = pack565 d (4 * k)" if "k < n" for k
    using that len by (subst compress_loop_nth) simp_all
  have oj: "out ! (4 * k + c) = channel (pack565 d (4 * k)) c" if "k < n" "k < m" "c < 4" for k c
  proof -
    have "(4 * k + c) div 4 = k" "(4 * k + c) mod 4 = c" using that by simp_all
    moreover have "4 * k + c < length (replicate (4 * m) (0 :: 8 word))" using that by simp
    ultimately show ?thesis unfolding out_def using that lc ck by (subst decompress_loop_nth) simp_all
  qed
  have b: "byte_at d j = unat (d ! j)" if "j < 4 * n" for j using that len by (simp add: byte_at_def)
  have main: "\<bar>uint (d ! (4 * k)) - uint (out ! (4 * k))\<bar> \<le> 7 \<and>
        \<bar>uint (d ! (4 * k + 1)) - uint (out ! (4 * k + 1))\<bar> \<le> 3 \<and>
        \<bar>uint (d ! (4 * k + 2)) - uint (out ! (4 * k + 2))\<bar> \<le> 7 \<and>
        out ! (4 * k + 3) = 255" if k: "k < n" and km: "k < m" for k
  proof -
    have lt: "byte_at d j div q * q \<le> 255" for j q
      using byte_at_less [of d j] div_times_less_eq_dividend [of "byte_at d j" q] by linarith
    have r: "unat (out ! (4 * k)) = unat (d ! (4 * k)) div 8 * 8"
      using oj [OF k km, of 0] b [of "4 * k"] k lt [of "4 * k" 8]
      by (simp add: channel_def unpack_pack unat_clamp8)
    have g: "unat (out ! (4 * k + 1)) = unat (d ! (4 * k + 1)) div 4 * 4"
      using oj [OF k km, of 1] b [of "4 * k + 1"] k lt [of "4 * k + 1" 4]
      by (simp add: channel_def unpack_pack unat_clamp8)
    have bl: "unat (out ! (4 * k + 2)) = unat (d ! (4 * k + 2)) div 8 * 8"
      using oj [OF k km, of 2] b [of "4 * k + 2"] k lt [of "4 * k + 2" 8]
      by (simp add: channel_def unpack_pack unat_clamp8)
    have a: "out ! (4 * k + 3) = 255"
      using oj [OF k km, of 3] by (simp add: channel_def clamp8_def)
    show ?thesis
      using uint_close [OF r, of 7] uint_close [OF g, of 3] uint_close [OF bl, of 7] a by simp
  qed
  show "pixels_within_step (min n m) d out"
    unfolding pixels_within_step_def using main by simp
  show "\<forall>j. 4 * n \<le> j \<and> j < 4 * m \<longrightarrow> out ! j = 0"
  proof (intro allI impI)
    fix j assume j: "4 * n \<le> j \<and> j < 4 * m"
    then have "n \<le> j div 4" by presburger
    then have "\<not> j div 4 < length ?c" using lc by simp
    moreover have "j < length (replicate (4 * m) (0 :: 8 word))" using j by simp
    ultimately show "out ! j = 0" unfolding out_def using j by (subst decompress_loop_nth) simp_all
  qed
qed

lemma roundtrip_data:
  assumes len: "length d = 4 * n"
  shows "within_quantization_step d
           (decompress_loop (compress_loop d 0 (replicate (length d div 4) 0)) 0 (replicate (4 * n) 0))"
  using roundtrip_prefix(1,2) [OF len, of n] len
  by (simp add: within_quantization_step_def pixels_within_step_def)

text \<open>
  A one-pixel image restored at size 2 has three more pixels, all zero, alpha included; a
  2 x 1 image restored at size 1 has lost its second pixel.
\<close>

theorem restored_at_other_size:
  "data (decompressImageData (compressImageData one_pixel_image) 2)
     = [248, 128, 0, 255, 0, 0, 0, 0, 0, 0, 0, 0, 0, 0, 0, 0]
   \<and> data (decompressImageData (compressImageData wide_image) 1) = [248, 128, 0, 255]"
proof -
  have r: "replicate 16 (0 :: 8 word) = [0, 0, 0, 0, 0, 0, 0, 0, 0, 0, 0, 0, 0, 0, 0, 0]"
    "replicate 4 (0 :: 8 word) = [0, 0, 0, 0]" "replicate 2 (0 :: 16 word) = [0, 0]"
    "replicate (Suc 0) (0 :: 16 word) = [0]"
    by (simp_all add: numeral_eq_Suc)
  have a: "data (decompressImageData (compressImageData one_pixel_image) 2)
     = [248, 128, 0, 255, 0, 0, 0, 0, 0, 0, 0, 0, 0, 0, 0, 0]"
    by (simp add: one_pixel_image_def decompressImageData_def compressImageData_def new_ImageData_def
          compress_loop.simps decompress_loop.simps pack565_def byte_at_def clamp8_def
          unpack_r_def unpack_g_def unpack_b_def r)
  have b: "data (decompressImageData (compressImageData wide_image) 1) = [248, 128, 0, 255]"
    by (simp add: wide_image_def decompressImageData_def compressImageData_def new_ImageData_def
          compress_loop.simps decompress_loop.simps pack565_def byte_at_def clamp8_def
          unpack_r_def unpack_g_def unpack_b_def r)
  show ?thesis using a b by blast
qed

text \<open>
  What the two codecs guarantee. For every \<open>ImageData\<close>, decompressing its RGB565
  compression at the image's own dimensions (\<open>ImageDataCompressor\<close>), or with the worker's
  \<open>decompressImageData\<close> at a size whose square is the number of pixels, gives a buffer of
  the same length in which R and B differ from the original by at most 7, G by at most 3,
  and alpha is 255 everywhere. At any other size the worker's result has \<open>size * size\<close>
  pixels: the pixels it shares with the original, index by index, are within that tolerance
  and any further pixels are zero in all four bytes. This is the buffer \<open>drawTileToCanvas\<close>
  restores. The compressed sequence is determined by the input bytes alone.
\<close>

theorem rgb565_roundtrip:
  assumes "valid_ImageData img"
  shows "within_quantization_step (data img)
           (data (decompressRGB565 (compressRGB565 img) (width img) (height img)))
       \<and> (\<forall>sz. length (data (decompressImageData (compressImageData img) sz)) = 4 * sz * sz
              \<and> pixels_within_step (min (width img * height img) (sz * sz)) (data img)
                    (data (decompressImageData (compressImageData img) sz))
              \<and> (\<forall>j. 4 * width img * height img \<le> j \<and> j < 4 * sz * sz \<longrightarrow>
                      data (decompressImageData (compressImageData img) sz) ! j = 0)
              \<and> (sz * sz = width img * height img \<longrightarrow>
                    within_quantization_step (data img)
                      (data (decompressImageData (compressImageData img) sz))))
       \<and> (\<forall>t sz. imageData t = compressImageData img \<longrightarrow>
              drawTileToCanvas_imageData t sz = decompressImageData (compressImageData img) sz)
       \<and> (\<forall>img'. data img' = data img \<longrightarrow>
              compressRGB565 img' = compressRGB565 img \<and>
              compressImageData img' = compressImageData img)"
proof -
  let ?n = "width img * height img"
  have len: "length (data img) = 4 * ?n"
    using assms by (simp add: valid_ImageData_def)
  have a: "data (decompressRGB565 c w h) = decompress_loop c 0 (replicate (4 * (w * h)) 0)" for c w h
    by (simp add: decompressRGB565_def new_ImageData_def Let_def mult.assoc)
  have b: "data (decompressImageData c w) = decompress_loop c 0 (replicate (4 * (w * w)) 0)" for c w
    by (simp add: decompressImageData_def new_ImageData_def Let_def mult.assoc)
  have c: "compressImageData i = compressRGB565 i" for i
    by (simp add: compressImageData_def compressRGB565_def)
  have 1: "within_quantization_step (data img)
           (data (decompressRGB565 (compressRGB565 img) (width img) (height img)))"
    unfolding a compressRGB565_def by (rule roundtrip_data [OF len])
  have 2: "length (data (decompressImageData (compressImageData img) sz)) = 4 * sz * sz
              \<and> pixels_within_step (min ?n (sz * sz)) (data img)
                    (data (decompressImageData (compressImageData img) sz))
              \<and> (\<forall>j. 4 * width img * height img \<le> j \<and> j < 4 * sz * sz \<longrightarrow>
                      data (decompressImageData (compressImageData img) sz) ! j = 0)
              \<and> (sz * sz = ?n \<longrightarrow>
                    within_quantization_step (data img)
                      (data (decompressImageData (compressImageData img) sz)))" for sz
  proof -
    let ?o = "data (decompressImageData (compressImageData img) sz)"
    have o: "?o = decompress_loop (compress_loop (data img) 0 (replicate (length (data img) div 4) 0)) 0
                    (replicate (4 * (sz * sz)) 0)"
      unfolding b compressImageData_def ..
    note p = roundtrip_prefix [OF len, of "sz * sz", folded o]
    have l: "length ?o = 4 * sz * sz" using p(1) by (simp add: mult.assoc)
    have z: "\<forall>j. 4 * width img * height img \<le> j \<and> j < 4 * sz * sz \<longrightarrow> ?o ! j = 0"
      using p(3) by (simp add: mult.assoc)
    have w: "within_quantization_step (data img) ?o" if "sz * sz = ?n"
      using p(1,2) len that by (simp add: within_quantization_step_def pixels_within_step_def)
    show ?thesis using l p(2) z w by blast
  qed
  have 3: "compressRGB565 img' = compressRGB565 img \<and> compressImageData img' = compressImageData img"
    if "data img' = data img" for img'
    unfolding c using that by (simp add: compressRGB565_def)
  have 4: "drawTileToCanvas_imageData t sz = decompressImageData (compressImageData img) sz"
    if "imageData t = compressImageData img" for t sz
    using that by (simp add: drawTileToCanvas_imageData_def)
  show ?thesis
    apply (intro conjI allI impI)
          apply (rule 1)
         apply (rule 2 [THEN conjunct1])
        apply (rule 2 [THEN conjunct2, THEN conjunct1])
       apply (use 2 in blast)
      apply (use 2 in blast)
     apply (erule 4)
    apply (use 3 in blast)+
    done
qed

theorem rgb565_roundtrip_witness:
  "valid_ImageData wide_image
   \<and> within_quantization_step (data wide_image)
        (data (decompressRGB565 (compressRGB565 wide_image) 2 1))
   \<and> length (data (decompressImageData (compressImageData wide_image) 1)) = 4
   \<and> pixels_within_step 1 (data wide_image) (data (decompressImageData (compressImageData wide_image) 1))"
proof -
  have v: "valid_ImageData wide_image"
    by (simp add: valid_ImageData_def wide_image_def)
  note t = rgb565_roundtrip [OF v]
  have 1: "within_quantization_step (data wide_image)
          (data (decompressRGB565 (compressRGB565 wide_image) (width wide_image) (height wide_image)))"
    by (rule t [THEN conjunct1])
  have 2: "length (data (decompressImageData (compressImageData wide_image) 1)) = 4 * 1 * 1
     \<and> pixels_within_step (min (width wide_image * height wide_image) (1 * 1)) (data wide_image)
          (data (decompressImageData (compressImageData wide_image) 1))"
    using t [THEN conjunct2, THEN conjunct1, THEN spec, of 1] by blast
  have wh: "width wide_image = 2" "height wide_image = 1" by (simp_all add: wide_image_def)
  show ?thesis using v 1 2 unfolding wh by simp
qed

text \<open>
  C3 fails in the worker's own round trip. \<open>drawTileToCanvas\<close> restores a tile with
  \<open>decompressImageData(tile.imageData, size)\<close> where \<open>size\<close> is the tile size of the
  settings (32 by default), while the compressed buffer holds the 64 x 64 thumbnail. For the
  gradient thumbnail the restored buffer has 1024 pixels, not 4096; its pixel \<open>(0, 1)\<close>
  (pixel 32 of the buffer, bytes 128 to 131) is the thumbnail's pixel \<open>(32, 0)\<close>, with red
  128 and green 0, where the thumbnail's pixel \<open>(0, 1)\<close> (bytes 256 to 259) has red 0 and
  green 4: the red channel is off by 128. \<open>ImageDataCompressor.decompressRGB565\<close>, called
  with the thumbnail's width and height, returns all 4096 pixels and red 0, green 4 there.
\<close>

theorem tile_restored_at_tile_size:
  "length (data gradient_image) = 16384
   \<and> data gradient_image ! 256 = 0 \<and> data gradient_image ! 257 = 4
   \<and> length (data (drawTileToCanvas_imageData gradient_tile 32)) = 4096
   \<and> data (drawTileToCanvas_imageData gradient_tile 32) ! 128 = 128
   \<and> data (drawTileToCanvas_imageData gradient_tile 32) ! 129 = 0
   \<and> length (data (decompressRGB565 (compressRGB565 gradient_image) 64 64)) = 16384
   \<and> data (decompressRGB565 (compressRGB565 gradient_image) 64 64) ! 256 = 0
   \<and> data (decompressRGB565 (compressRGB565 gradient_image) 64 64) ! 257 = 4"
proof -
  let ?d = "data gradient_image"
  let ?c = "compress_loop ?d 0 (replicate (length ?d div 4) 0)"
  have len: "length ?d = 16384" by (simp add: gradient_image_def)
  have nth: "?d ! j = gradient_byte j" if "j < 16384" for j
    using that by (simp add: gradient_image_def)
  have lc: "length ?c = 4096" by (simp add: compress_loop_length len)
  have ck: "?c ! k = pack565 ?d (4 * k)" if "k < 4096" for k
    using that len by (subst compress_loop_nth) simp_all
  have bt: "byte_at ?d j = unat (gradient_byte j)" if "j < 16384" for j
    using that nth len by (simp add: byte_at_def)
  have t: "drawTileToCanvas_imageData gradient_tile 32 = decompressImageData ?c 32"
    by (simp add: drawTileToCanvas_imageData_def gradient_tile_def extractTileMetadata_imageData_def
          gradient_file_def compressImageData_def)
  have dt: "data (decompressImageData ?c 32) = decompress_loop ?c 0 (replicate 4096 0)"
    by (simp add: decompressImageData_def new_ImageData_def Let_def)
  have dr: "data (decompressRGB565 (compressRGB565 gradient_image) 64 64)
              = decompress_loop ?c 0 (replicate 16384 0)"
    by (simp add: decompressRGB565_def compressRGB565_def new_ImageData_def Let_def)
  have 1: "?d ! 256 = 0" "?d ! 257 = 4"
    by (simp_all add: nth gradient_byte_def)
  have 2: "length (data (drawTileToCanvas_imageData gradient_tile 32)) = 4096"
    unfolding t dt by (simp add: decompress_loop_length)
  have 3: "data (drawTileToCanvas_imageData gradient_tile 32) ! 128 = 128"
    unfolding t dt
    by (subst decompress_loop_nth)
       (simp_all add: lc ck channel_def unpack_pack bt gradient_byte_def clamp8_def)
  have 4: "data (drawTileToCanvas_imageData gradient_tile 32) ! 129 = 0"
    unfolding t dt
    by (subst decompress_loop_nth)
       (simp_all add: lc ck channel_def unpack_pack bt gradient_byte_def clamp8_def)
  have 5: "length (data (decompressRGB565 (compressRGB565 gradient_image) 64 64)) = 16384"
    unfolding dr by (simp add: decompress_loop_length)
  have 6: "data (decompressRGB565 (compressRGB565 gradient_image) 64 64) ! 256 = 0"
    unfolding dr
    by (subst decompress_loop_nth)
       (simp_all add: lc ck channel_def unpack_pack bt gradient_byte_def clamp8_def)
  have 7: "data (decompressRGB565 (compressRGB565 gradient_image) 64 64) ! 257 = 4"
    unfolding dr
    by (subst decompress_loop_nth)
       (simp_all add: lc ck channel_def unpack_pack bt gradient_byte_def clamp8_def)
  show ?thesis using len 1 2 3 4 5 6 7 by simp
qed

section \<open>Properties of tile selection and placement\<close>

lemma random_index_less: "0 < n \<Longrightarrow> random_index u n < n"
proof -
  assume n: "0 < n"
  have "unat u < 2 ^ 53" using unsigned_less [of u, where 'a = nat] by simp
  then have "unat u * n < 2 ^ 53 * n" using n by simp
  then show ?thesis unfolding random_index_def
    by (simp add: less_mult_imp_div_less mult.commute)
qed

lemma Math_min_attained: "vs \<noteq> [] \<Longrightarrow> \<exists>m \<in> set vs. Math_min vs = Num m"
proof (induction vs)
  case Nil
  then show ?case by simp
next
  case (Cons v vs)
  show ?case
  proof (cases "vs = []")
    case True
    then show ?thesis by simp
  next
    case False
    then obtain m where m: "m \<in> set vs" "Math_min vs = Num m" using Cons.IH by blast
    then show ?thesis by (cases "v \<le> m") (auto simp add: min_def)
  qed
qed

lemma filter_min_nonempty:
  assumes "cs \<noteq> []"
  shows "filter (\<lambda>c. Num (usage c) = Math_min (map usage cs)) cs \<noteq> []"
proof -
  have "map usage cs \<noteq> []" using assms by simp
  then obtain m where m: "m \<in> set (map usage cs)" "Math_min (map usage cs) = Num m"
    using Math_min_attained by blast
  then obtain c where "c \<in> set cs" "usage c = m" by auto
  then show ?thesis using m(2) by (auto simp add: filter_empty_conv)
qed

lemma take_nonempty: "xs \<noteq> [] \<Longrightarrow> 0 < n \<Longrightarrow> take n xs \<noteq> []"
  by (cases xs; cases n) simp_all

lemma chosen_pool_subset: "set (chosen_pool cs mu) \<subseteq> set cs"
  unfolding chosen_pool_def Let_def
  by (auto dest!: in_set_takeD)

lemma chosen_pool_nonempty: "cs \<noteq> [] \<Longrightarrow> chosen_pool cs mu \<noteq> []"
  unfolding chosen_pool_def Let_def
  using filter_min_nonempty [of cs] by (auto intro!: take_nonempty)

lemma js_index_mem: "js_index xs i = Some c \<Longrightarrow> c \<in> set xs"
  by (auto simp add: js_index_def split: if_splits)

lemma sort_key_nonempty: "xs \<noteq> [] \<Longrightarrow> sort_key f xs \<noteq> []"
  by (metis length_sort length_0_conv)

lemma choose_candidate_eq:
  "choose_candidate cs mu t u =
     (case best_candidate cs mu t u of None \<Rightarrow> Inl TypeError | Some c \<Rightarrow> Inr (tile c))"
  unfolding choose_candidate_def best_candidate_def top_candidates_def best_usage_def
    chosen_pool_def Let_def by simp

lemma best_usage_subset: "set (best_usage cs mu) \<subseteq> set cs"
  unfolding best_usage_def using chosen_pool_subset [of cs mu] by auto

lemma top_candidates_subset: "set (top_candidates cs mu t) \<subseteq> set cs"
proof -
  have "set (top_candidates cs mu t) \<subseteq> set (sort_key distance (best_usage cs mu))"
    unfolding top_candidates_def by (rule set_take_subset)
  then show ?thesis using best_usage_subset [of cs mu] by simp
qed

lemma best_candidate_mem:
  assumes "best_candidate cs mu t u = Some c"
  shows "c \<in> set cs"
proof (cases "length (best_usage cs mu) = 1")
  case True
  then have "js_index (best_usage cs mu) 0 = Some c"
    using assms by (simp add: best_candidate_def)
  from js_index_mem [OF this] best_usage_subset [of cs mu] show ?thesis by auto
next
  case False
  then have "js_index (top_candidates cs mu t) (random_index u (length (top_candidates cs mu t))) = Some c"
    using assms by (simp add: best_candidate_def)
  from js_index_mem [OF this] top_candidates_subset [of cs mu t] show ?thesis by auto
qed

lemma best_usage_nonempty: "cs \<noteq> [] \<Longrightarrow> best_usage cs mu \<noteq> []"
  unfolding best_usage_def by (rule filter_min_nonempty [OF chosen_pool_nonempty])

lemma top_candidates_nonempty: "cs \<noteq> [] \<Longrightarrow> top_candidates cs mu t \<noteq> []"
  unfolding top_candidates_def
  by (rule take_nonempty [OF sort_key_nonempty [OF best_usage_nonempty]]) simp_all

lemma best_candidate_total:
  assumes "cs \<noteq> []"
  shows "\<exists>c. best_candidate cs mu t u = Some c"
proof (cases "length (best_usage cs mu) = 1")
  case True
  then show ?thesis by (simp add: best_candidate_def js_index_def)
next
  case False
  have "0 < length (top_candidates cs mu t)"
    using top_candidates_nonempty [OF assms] by simp
  then have "random_index u (length (top_candidates cs mu t)) < length (top_candidates cs mu t)"
    by (rule random_index_less)
  then show ?thesis using False by (simp add: best_candidate_def js_index_def)
qed

lemma choose_candidate_mem:
  assumes "choose_candidate cs mu t u = Inr x"
  shows "x \<in> tile ` set cs"
  using assms best_candidate_mem [of cs mu t u]
  unfolding choose_candidate_eq by (auto split: option.splits)

lemma choose_candidate_total:
  assumes "cs \<noteq> []"
  shows "\<exists>x. choose_candidate cs mu t u = Inr x"
  using best_candidate_total [OF assms, of mu t u]
  unfolding choose_candidate_eq by auto

lemma selectBestTile_mem:
  "selectBestTile cell ts uc settings u = Inr x \<Longrightarrow> x \<in> set ts"
  unfolding selectBestTile_def Let_def
  by (drule choose_candidate_mem) (auto simp add: make_candidate_def)

lemma selectBestTile_total:
  "ts \<noteq> [] \<Longrightarrow> \<exists>x. selectBestTile cell ts uc settings u = Inr x"
  unfolding selectBestTile_def Let_def
  by (rule choose_candidate_total) (simp add: sort_key_nonempty)

lemma selectBestTile_empty: "selectBestTile cell [] uc settings u = Inl TypeError"
  by (simp add: selectBestTile_def choose_candidate_def js_index_def random_index_def)

lemma constrained_unfold:
  "selectBestTileWithNeighborConstraint cell ts uc nb settings u =
     (if filter (\<lambda>t. filename t \<notin> set nb) ts = []
      then (True, selectBestTile cell ts uc settings u)
      else (False, choose_candidate
              (sort_key distance (map (make_candidate cell uc settings)
                 (filter (\<lambda>t. filename t \<notin> set nb) ts)))
              (maxUsage_constrained settings ts) 4 u))"
proof -
  have "length (sort_key distance (map (make_candidate cell uc settings)
                 (filter (\<lambda>t. filename t \<notin> set nb) ts))) = 0
        \<longleftrightarrow> filter (\<lambda>t. filename t \<notin> set nb) ts = []"
    by simp
  then show ?thesis
    by (simp only: selectBestTileWithNeighborConstraint_def Let_def)
qed

lemma constrained_fallback_iff:
  "fst (selectBestTileWithNeighborConstraint cell ts uc nb settings u)
     \<longleftrightarrow> filter (\<lambda>t. filename t \<notin> set nb) ts = []"
  by (simp add: constrained_unfold)

lemma constrained_mem:
  "snd (selectBestTileWithNeighborConstraint cell ts uc nb settings u) = Inr x \<Longrightarrow> x \<in> set ts"
  unfolding constrained_unfold
  by (auto split: if_splits dest!: choose_candidate_mem selectBestTile_mem simp add: make_candidate_def)

lemma constrained_avoids:
  assumes "snd (selectBestTileWithNeighborConstraint cell ts uc nb settings u) = Inr x"
      and "\<not> fst (selectBestTileWithNeighborConstraint cell ts uc nb settings u)"
  shows "filename x \<notin> set nb"
  using assms unfolding constrained_unfold
  by (auto split: if_splits dest!: choose_candidate_mem simp add: make_candidate_def)

lemma constrained_total:
  assumes "ts \<noteq> []"
  shows "\<exists>x. snd (selectBestTileWithNeighborConstraint cell ts uc nb settings u) = Inr x"
proof (cases "filter (\<lambda>t. filename t \<notin> set nb) ts = []")
  case True
  then show ?thesis
    using selectBestTile_total [OF assms] by (simp add: constrained_unfold)
next
  case False
  then have "sort_key distance (map (make_candidate cell uc settings) (filter (\<lambda>t. filename t \<notin> set nb) ts)) \<noteq> []"
    by (simp add: sort_key_nonempty)
  from choose_candidate_total [OF this] False show ?thesis
    by (simp add: constrained_unfold)
qed

lemma usage_set_sum:
  "sum_list (map snd (usage_set k (usage_of uc k + 1) uc)) = sum_list (map snd uc) + 1"
proof (induction uc)
  case Nil
  then show ?case by (simp add: usage_of_def)
next
  case (Cons p ps)
  show ?case
  proof (cases "fst p = k")
    case True
    then show ?thesis by (cases p) (simp add: usage_of_def)
  next
    case False
    then have "usage_of (p # ps) k = usage_of ps k" by (cases p) (auto simp add: usage_of_def)
    then show ?thesis using False Cons.IH by simp
  qed
qed

lemma place_cell_cases:
  assumes "place_cell settings ts g u i fx cell st = Some (Inr st')"
  obtains t fb where
    "t \<in> set ts"
    "tiles st' = tiles st @ [\<lparr>place_x = cell_x cell, place_y = cell_y cell,
                               place_tile = filename t, tileMetadata = t\<rparr>]"
    "tileUsageCount st' = usage_set (filename t) (usage_of (tileUsageCount st) (filename t) + 1) (tileUsageCount st)"
    "tileMap st' = (tileMap st)(cell_pos cell \<mapsto> filename t)"
    "relaxed st' = (if fb then relaxed st @ [cell_pos cell] else relaxed st)"
    "neighborDiversity settings = ''enabled'' \<Longrightarrow>
       fb = fst (selectBestTileWithNeighborConstraint cell ts (tileUsageCount st)
                  (getNeighborTiles (cell_x cell) (cell_y cell) (tileMap st) g) settings u)
       \<and> snd (selectBestTileWithNeighborConstraint cell ts (tileUsageCount st)
                  (getNeighborTiles (cell_x cell) (cell_y cell) (tileMap st) g) settings u) = Inr t"
    "neighborDiversity settings \<noteq> ''enabled'' \<Longrightarrow> \<not> fb"
proof (cases "neighborDiversity settings = ''enabled''")
  case True
  let ?sel = "selectBestTileWithNeighborConstraint cell ts (tileUsageCount st)
                  (getNeighborTiles (cell_x cell) (cell_y cell) (tileMap st) g) settings u"
  from assms True obtain t where t: "snd ?sel = Inr t"
    by (auto simp add: place_cell_def Let_def split: sum.splits)
  have mem: "t \<in> set ts" by (rule constrained_mem [OF t])
  show ?thesis
    by (rule that [of t "fst ?sel"])
       (use assms True t mem in
         \<open>auto simp add: place_cell_def Let_def cell_pos_def split: sum.splits option.splits if_splits\<close>)
next
  case False
  from assms False obtain t where t: "selectBestTile cell ts (tileUsageCount st) settings u = Inr t"
    by (auto simp add: place_cell_def Let_def split: sum.splits)
  have mem: "t \<in> set ts" by (rule selectBestTile_mem [OF t])
  show ?thesis
    by (rule that [of t False])
       (use assms False t mem in
         \<open>auto simp add: place_cell_def Let_def cell_pos_def split: sum.splits option.splits if_splits\<close>)
qed

lemma place_cell_total:
  assumes "ts \<noteq> []" and "0 < tileSize settings"
  shows "\<exists>st'. place_cell settings ts g u i undisturbed cell st = Some (Inr st')"
proof (cases "neighborDiversity settings = ''enabled''")
  case True
  obtain t where "snd (selectBestTileWithNeighborConstraint cell ts (tileUsageCount st)
                  (getNeighborTiles (cell_x cell) (cell_y cell) (tileMap st) g) settings u) = Inr t"
    using constrained_total [OF assms(1)] by blast
  then show ?thesis using True assms(2)
    by (simp add: place_cell_def Let_def drawTileToCanvas_def undisturbed_def)
next
  case False
  obtain t where "selectBestTile cell ts (tileUsageCount st) settings u = Inr t"
    using selectBestTile_total [OF assms(1)] by blast
  then show ?thesis using False assms(2)
    by (simp add: place_cell_def Let_def drawTileToCanvas_def undisturbed_def)
qed

lemma place_cells_total:
  assumes "ts \<noteq> []" and "0 < tileSize settings"
  shows "\<exists>st'. place_cells settings ts g rng quiet i cs st = Some (Inr st')"
proof (induction cs arbitrary: i st)
  case Nil
  then show ?case by simp
next
  case (Cons c cs)
  obtain st1 where "place_cell settings ts g (rng i) i undisturbed c st = Some (Inr st1)"
    using place_cell_total [OF assms] by blast
  then show ?case using Cons.IH [of "i + 1" st1] by (simp add: quiet_def)
qed

lemma place_cells_step:
  assumes "place_cells settings ts g rng env i (c # cs) st = Some (Inr st')"
  obtains st1 where "place_cell settings ts g (rng i) i (env i) c st = Some (Inr st1)"
    and "place_cells settings ts g rng env (i + 1) cs st1 = Some (Inr st')"
  using assms by (auto split: option.splits sum.splits)

lemma place_cells_count:
  assumes "place_cells settings ts g rng env i cs st = Some (Inr st')"
  shows "map place_pos (tiles st') = map place_pos (tiles st) @ map cell_pos cs
       \<and> sum_list (map snd (tileUsageCount st')) = sum_list (map snd (tileUsageCount st)) + length cs
       \<and> (\<forall>p \<in> set (tiles st'). p \<in> set (tiles st) \<or> (tileMetadata p \<in> set ts \<and> place_tile p = filename (tileMetadata p)))"
  using assms
proof (induction cs arbitrary: i st)
  case Nil
  then show ?case by simp
next
  case (Cons c cs)
  from Cons.prems obtain st1 where
    s1: "place_cell settings ts g (rng i) i (env i) c st = Some (Inr st1)"
    and r: "place_cells settings ts g rng env (i + 1) cs st1 = Some (Inr st')"
    by (rule place_cells_step)
  from s1 obtain t where t: "t \<in> set ts"
    "tiles st1 = tiles st @ [\<lparr>place_x = cell_x c, place_y = cell_y c,
                               place_tile = filename t, tileMetadata = t\<rparr>]"
    "tileUsageCount st1 = usage_set (filename t) (usage_of (tileUsageCount st) (filename t) + 1) (tileUsageCount st)"
    by (rule place_cell_cases)
  have sum1: "sum_list (map snd (tileUsageCount st1)) = sum_list (map snd (tileUsageCount st)) + 1"
    unfolding t(3) by (rule usage_set_sum)
  have pos1: "map place_pos (tiles st1) = map place_pos (tiles st) @ [cell_pos c]"
    unfolding t(2) by (simp add: place_pos_def cell_pos_def)
  have mem1: "\<forall>p \<in> set (tiles st1). p \<in> set (tiles st) \<or> (tileMetadata p \<in> set ts \<and> place_tile p = filename (tileMetadata p))"
    unfolding t(2) using t(1) by auto
  from Cons.IH [OF r] show ?case using sum1 pos1 mem1 by auto
qed

lemma generateMosaicGrid_undisturbed:
  assumes "ts \<noteq> []" and "0 < tileSize settings"
  shows "\<exists>st. generateMosaicGrid sourceData ts settings rng quiet = Some (Inr st)"
  unfolding generateMosaicGrid_def by (rule place_cells_total [OF assms])

lemma grid_positions_distinct: "distinct (grid_positions g)"
  unfolding grid_positions_def
  by (rule distinct_concat) (auto simp add: distinct_map inj_on_def)

lemma grid_positions_set: "set (grid_positions g) = {(x, y). x < g \<and> y < g}"
  unfolding grid_positions_def by auto

lemma grid_positions_length: "length (grid_positions g) = g * g"
  unfolding grid_positions_def by (simp add: length_concat comp_def sum_list_triv)

lemma once_in_distinct:
  assumes "distinct xs" "a \<in> set xs"
  shows "length (filter (\<lambda>b. b = a) xs) = 1"
  using assms by (induction xs) (auto simp add: filter_empty_conv)

lemma grid_complete:
  assumes rm: "row_major sourceData"
      and st: "generateMosaicGrid sourceData tileMeta settings rng env = Some (Inr st)"
  shows "(\<forall>x < src_gridSize sourceData. \<forall>y < src_gridSize sourceData.
                length (filter (\<lambda>p. place_x p = x \<and> place_y p = y) (tiles st)) = 1)
          \<and> length (tiles st) = src_gridSize sourceData * src_gridSize sourceData
          \<and> sum_list (map snd (tileUsageCount st)) = src_gridSize sourceData * src_gridSize sourceData"
proof -
  let ?g = "src_gridSize sourceData"
  have rm': "map cell_pos (cells sourceData) = grid_positions ?g"
    using rm by (simp add: row_major_def cell_pos_def [abs_def])
  from st have pc: "place_cells settings tileMeta ?g rng env 0 (cells sourceData) initial_GridState = Some (Inr st)"
    by (simp add: generateMosaicGrid_def)
  note cnt = place_cells_count [OF pc]
  have pos: "map place_pos (tiles st) = grid_positions ?g"
    using cnt rm' by (simp add: initial_GridState_def)
  have len: "length (tiles st) = ?g * ?g"
    using arg_cong [OF pos, of length] by (simp add: grid_positions_length)
  have "length (cells sourceData) = ?g * ?g"
    using arg_cong [OF rm', of length] by (simp add: grid_positions_length)
  then have total: "sum_list (map snd (tileUsageCount st)) = ?g * ?g"
    using cnt by (simp add: initial_GridState_def)
  have one: "length (filter (\<lambda>p. place_x p = x \<and> place_y p = y) (tiles st)) = 1"
    if "x < ?g" "y < ?g" for x y
  proof -
    have "(x, y) \<in> set (grid_positions ?g)" using that by (simp add: grid_positions_set)
    then have "length (filter (\<lambda>b. b = (x, y)) (grid_positions ?g)) = 1"
      by (rule once_in_distinct [OF grid_positions_distinct])
    then have "length (filter (\<lambda>b. b = (x, y)) (map place_pos (tiles st))) = 1"
      by (simp only: pos)
    then show ?thesis
      by (simp add: filter_map comp_def place_pos_def)
  qed
  show ?thesis using one len total by blast
qed

text \<open>
  C1: with a non-empty tile list and the cells of the whole grid, in every run of
  \<open>generateMosaicGrid\<close> that completes, whatever the draws and whatever the canvas, the
  preview and the pause/cancel check do, every grid position \<open>(x, y)\<close> with
  \<open>x, y < gridSize\<close> has exactly one entry in \<open>result.tiles\<close>, there are
  \<open>gridSize * gridSize\<close> entries, and the values of the usage counter sum to
  \<open>gridSize * gridSize\<close>. With a positive tile size the undisturbed run does complete,
  with these properties.
\<close>

theorem grid_one_placement_per_cell:
  assumes "tileMeta \<noteq> []" and "row_major sourceData"
  shows "(\<forall>st. generateMosaicGrid sourceData tileMeta settings rng env = Some (Inr st) \<longrightarrow>
            (\<forall>x < src_gridSize sourceData. \<forall>y < src_gridSize sourceData.
                length (filter (\<lambda>p. place_x p = x \<and> place_y p = y) (tiles st)) = 1)
          \<and> length (tiles st) = src_gridSize sourceData * src_gridSize sourceData
          \<and> sum_list (map snd (tileUsageCount st)) = src_gridSize sourceData * src_gridSize sourceData)
       \<and> (0 < tileSize settings \<longrightarrow>
           (\<exists>st. generateMosaicGrid sourceData tileMeta settings rng quiet = Some (Inr st)
              \<and> (\<forall>x < src_gridSize sourceData. \<forall>y < src_gridSize sourceData.
                    length (filter (\<lambda>p. place_x p = x \<and> place_y p = y) (tiles st)) = 1)
              \<and> length (tiles st) = src_gridSize sourceData * src_gridSize sourceData
              \<and> sum_list (map snd (tileUsageCount st)) = src_gridSize sourceData * src_gridSize sourceData))"
proof -
  have 1: "\<forall>st. generateMosaicGrid sourceData tileMeta settings rng env = Some (Inr st) \<longrightarrow>
            (\<forall>x < src_gridSize sourceData. \<forall>y < src_gridSize sourceData.
                length (filter (\<lambda>p. place_x p = x \<and> place_y p = y) (tiles st)) = 1)
          \<and> length (tiles st) = src_gridSize sourceData * src_gridSize sourceData
          \<and> sum_list (map snd (tileUsageCount st)) = src_gridSize sourceData * src_gridSize sourceData"
    using grid_complete [OF assms(2)] by (intro allI impI)
  have 2: "0 < tileSize settings \<longrightarrow>
           (\<exists>st. generateMosaicGrid sourceData tileMeta settings rng quiet = Some (Inr st)
              \<and> (\<forall>x < src_gridSize sourceData. \<forall>y < src_gridSize sourceData.
                    length (filter (\<lambda>p. place_x p = x \<and> place_y p = y) (tiles st)) = 1)
              \<and> length (tiles st) = src_gridSize sourceData * src_gridSize sourceData
              \<and> sum_list (map snd (tileUsageCount st)) = src_gridSize sourceData * src_gridSize sourceData)"
  proof
    assume "0 < tileSize settings"
    then obtain st where st: "generateMosaicGrid sourceData tileMeta settings rng quiet = Some (Inr st)"
      using generateMosaicGrid_undisturbed [OF assms(1)] by blast
    from grid_complete [OF assms(2) st] st
    show "\<exists>st. generateMosaicGrid sourceData tileMeta settings rng quiet = Some (Inr st)
              \<and> (\<forall>x < src_gridSize sourceData. \<forall>y < src_gridSize sourceData.
                    length (filter (\<lambda>p. place_x p = x \<and> place_y p = y) (tiles st)) = 1)
              \<and> length (tiles st) = src_gridSize sourceData * src_gridSize sourceData
              \<and> sum_list (map snd (tileUsageCount st)) = src_gridSize sourceData * src_gridSize sourceData"
      by blast
  qed
  show ?thesis by (rule conjI [OF 1 2])
qed

lemma demo_row_major: "row_major demo_source"
  by (simp add: row_major_def demo_source_def demo_cell_def grid_positions_def upt_rec)

theorem grid_one_placement_per_cell_witness:
  "[demo_tile ''a'' 10] \<noteq> [] \<and> row_major demo_source \<and> 0 < tileSize demo_settings \<and>
   (\<exists>st. generateMosaicGrid demo_source [demo_tile ''a'' 10] demo_settings (\<lambda>i. 0) quiet = Some (Inr st)
      \<and> length (tiles st) = 4 \<and> sum_list (map snd (tileUsageCount st)) = 4)"
proof -
  have ne: "[demo_tile ''a'' 10] \<noteq> []" by simp
  have ts: "0 < tileSize demo_settings" by (simp add: demo_settings_def)
  from grid_one_placement_per_cell [OF ne demo_row_major, of demo_settings "\<lambda>i. 0", THEN conjunct2] ts
  obtain st where "generateMosaicGrid demo_source [demo_tile ''a'' 10] demo_settings (\<lambda>i. 0) quiet = Some (Inr st)"
     "length (tiles st) = src_gridSize demo_source * src_gridSize demo_source"
     "sum_list (map snd (tileUsageCount st)) = src_gridSize demo_source * src_gridSize demo_source"
    by blast
  then show ?thesis using demo_row_major ts by (auto simp add: demo_source_def)
qed

section \<open>Neighbour diversity\<close>

lemma adjacent_sym: "adjacent p q \<Longrightarrow> adjacent q p"
  by (auto simp add: adjacent_def)

lemma adjacent_irrefl: "\<not> adjacent p p"
  by (simp add: adjacent_def)

lemma getNeighborTiles_eq:
  "getNeighborTiles x y tm g =
     neighbor_at x y tm g (-1, 0) @ neighbor_at x y tm g (1, 0) @
     neighbor_at x y tm g (0, -1) @ neighbor_at x y tm g (0, 1)"
  by (simp add: getNeighborTiles_def directions_def neighbor_at_def)

lemma neighbor_at_length: "length (neighbor_at x y tm g d) \<le> 1"
  by (simp add: neighbor_at_def Let_def split: option.splits)

lemma getNeighborTiles_length: "length (getNeighborTiles x y tm g) \<le> 4"
proof -
  have "length (getNeighborTiles x y tm g) =
          length (neighbor_at x y tm g (-1, 0)) + length (neighbor_at x y tm g (1, 0)) +
          length (neighbor_at x y tm g (0, -1)) + length (neighbor_at x y tm g (0, 1))"
    by (simp add: getNeighborTiles_eq)
  then show ?thesis
    using neighbor_at_length [of x y tm g "(-1, 0)"] neighbor_at_length [of x y tm g "(1, 0)"]
      neighbor_at_length [of x y tm g "(0, -1)"] neighbor_at_length [of x y tm g "(0, 1)"]
    by linarith
qed

lemma neighbor_at_hit:
  assumes "tm (qx, qy) = Some b" "b \<noteq> []" "qx < g" "qy < g"
      and "int qx = int x + fst d" "int qy = int y + snd d"
  shows "b \<in> set (neighbor_at x y tm g d)"
proof -
  have "nat (int x + fst d) = qx" "nat (int y + snd d) = qy" using assms(5,6) by linarith+
  then show ?thesis using assms by (simp add: neighbor_at_def Let_def)
qed

lemma neighbor_listed:
  assumes "tm q = Some b" "b \<noteq> []" "adjacent (x, y) q" "fst q < g" "snd q < g"
  shows "b \<in> set (getNeighborTiles x y tm g)"
proof -
  obtain qx qy where q: "q = (qx, qy)" by (cases q)
  note h = neighbor_at_hit [of tm qx qy b g x _ y]
  from assms(3) [unfolded q adjacent_def] consider
      "qy = y" "x + 1 = qx" | "qy = y" "qx + 1 = x" | "qx = x" "y + 1 = qy" | "qx = x" "qy + 1 = y"
    by auto
  then show ?thesis
  proof cases
    case 1
    then have "b \<in> set (neighbor_at x y tm g (1, 0))" using assms q by (intro h) auto
    then show ?thesis by (simp add: getNeighborTiles_eq)
  next
    case 2
    then have "b \<in> set (neighbor_at x y tm g (-1, 0))" using assms q by (intro h) auto
    then show ?thesis by (simp add: getNeighborTiles_eq)
  next
    case 3
    then have "b \<in> set (neighbor_at x y tm g (0, 1))" using assms q by (intro h) auto
    then show ?thesis by (simp add: getNeighborTiles_eq)
  next
    case 4
    then have "b \<in> set (neighbor_at x y tm g (0, -1))" using assms q by (intro h) auto
    then show ?thesis by (simp add: getNeighborTiles_eq)
  qed
qed

lemma pool_survives:
  assumes "5 \<le> card (set (map filename ts))" "length nb \<le> 4"
  shows "filter (\<lambda>t. filename t \<notin> set nb) ts \<noteq> []"
proof
  assume "filter (\<lambda>t. filename t \<notin> set nb) ts = []"
  then have "set (map filename ts) \<subseteq> set nb" by (auto simp add: filter_empty_conv)
  then have "card (set (map filename ts)) \<le> card (set nb)" by (intro card_mono) simp_all
  moreover have "card (set nb) \<le> length nb" by (rule card_length)
  ultimately show False using assms by linarith
qed

lemma place_cell_diverse:
  assumes inv: "diverse g st"
      and en: "neighborDiversity settings = ''enabled''"
      and pool: "good_pool ts"
      and ingrid: "cell_x cell < g" "cell_y cell < g"
      and fresh: "tileMap st (cell_pos cell) = None"
      and step: "place_cell settings ts g u i fx cell st = Some (Inr st')"
  shows "diverse g st' \<and> dom (tileMap st') = insert (cell_pos cell) (dom (tileMap st))"
proof -
  let ?nb = "getNeighborTiles (cell_x cell) (cell_y cell) (tileMap st) g"
  let ?sel = "selectBestTileWithNeighborConstraint cell ts (tileUsageCount st) ?nb settings u"
  from step obtain t fb where t: "t \<in> set ts"
    "tiles st' = tiles st @ [\<lparr>place_x = cell_x cell, place_y = cell_y cell,
                               place_tile = filename t, tileMetadata = t\<rparr>]"
    "tileMap st' = (tileMap st)(cell_pos cell \<mapsto> filename t)"
    "relaxed st' = (if fb then relaxed st @ [cell_pos cell] else relaxed st)"
    "neighborDiversity settings = ''enabled'' \<Longrightarrow> fb = fst ?sel \<and> snd ?sel = Inr t"
    by (rule place_cell_cases) blast
  have sel: "fb = fst ?sel" "snd ?sel = Inr t" using t(5) [OF en] by simp_all
  have "filter (\<lambda>t. filename t \<notin> set ?nb) ts \<noteq> []"
    using pool getNeighborTiles_length [of "cell_x cell" "cell_y cell" "tileMap st" g]
    by (intro pool_survives) (simp_all add: good_pool_def)
  then have nofb: "\<not> fb" unfolding sel(1) by (simp add: constrained_fallback_iff)
  have avoid: "filename t \<notin> set ?nb"
    using constrained_avoids [OF sel(2)] nofb sel(1) by simp
  have "filename t \<in> set (map filename ts)" using t(1) by simp
  then have name: "filename t \<noteq> []" using pool unfolding good_pool_def by metis
  have i1: "\<forall>p \<in> set (tiles st). tileMap st (place_pos p) = Some (place_tile p)"
   and i2: "\<forall>q b. tileMap st q = Some b \<longrightarrow> b \<noteq> [] \<and> fst q < g \<and> snd q < g"
   and i3: "\<forall>q q' b b'. tileMap st q = Some b \<and> tileMap st q' = Some b' \<and> adjacent q q' \<longrightarrow> b \<noteq> b'"
   and i4: "relaxed st = []"
    using inv by (simp_all add: diverse_def)
  have differs: "b \<noteq> filename t" if "tileMap st q = Some b" "adjacent (cell_pos cell) q" for q b
  proof -
    have "b \<noteq> []" "fst q < g" "snd q < g" using i2 that(1) by blast+
    then have "b \<in> set ?nb"
      using neighbor_listed [of "tileMap st" q b "cell_x cell" "cell_y cell" g] that
      by (simp add: cell_pos_def)
    then show ?thesis using avoid by auto
  qed
  have n1: "\<forall>p \<in> set (tiles st'). tileMap st' (place_pos p) = Some (place_tile p)"
  proof
    fix p assume "p \<in> set (tiles st')"
    then consider "p \<in> set (tiles st)"
      | "p = \<lparr>place_x = cell_x cell, place_y = cell_y cell, place_tile = filename t, tileMetadata = t\<rparr>"
      unfolding t(2) by auto
    then show "tileMap st' (place_pos p) = Some (place_tile p)"
    proof cases
      case 1
      then have "tileMap st (place_pos p) = Some (place_tile p)" using i1 by blast
      then show ?thesis unfolding t(3) using fresh by auto
    next
      case 2
      then show ?thesis unfolding t(3) by (simp add: place_pos_def cell_pos_def)
    qed
  qed
  have n2: "\<forall>q b. tileMap st' q = Some b \<longrightarrow> b \<noteq> [] \<and> fst q < g \<and> snd q < g"
    unfolding t(3) using i2 name ingrid by (auto simp add: cell_pos_def split: if_splits)
  have n3: "\<forall>q q' b b'. tileMap st' q = Some b \<and> tileMap st' q' = Some b' \<and> adjacent q q' \<longrightarrow> b \<noteq> b'"
  proof (intro allI impI)
    fix q q' b b'
    assume a: "tileMap st' q = Some b \<and> tileMap st' q' = Some b' \<and> adjacent q q'"
    show "b \<noteq> b'"
    proof (cases "q = cell_pos cell")
      case True
      then have q': "q' \<noteq> cell_pos cell" using a adjacent_irrefl [of "cell_pos cell"] by metis
      then have "tileMap st q' = Some b'" using a unfolding t(3) by simp
      then have "b' \<noteq> filename t" using differs a True by blast
      moreover have "b = filename t" using a True unfolding t(3) by simp
      ultimately show ?thesis by simp
    next
      case False
      then have qb: "tileMap st q = Some b" using a unfolding t(3) by simp
      show ?thesis
      proof (cases "q' = cell_pos cell")
        case True
        then have "adjacent (cell_pos cell) q" using a adjacent_sym by blast
        then have "b \<noteq> filename t" using differs qb by blast
        moreover have "b' = filename t" using a True unfolding t(3) by simp
        ultimately show ?thesis by simp
      next
        case False
        then have "tileMap st q' = Some b'" using a unfolding t(3) by simp
        then show ?thesis using i3 qb a by blast
      qed
    qed
  qed
  have n4: "relaxed st' = []" unfolding t(4) using nofb i4 by simp
  have d: "dom (tileMap st') = insert (cell_pos cell) (dom (tileMap st))"
    unfolding t(3) by simp
  show ?thesis using n1 n2 n3 n4 d unfolding diverse_def by blast
qed

lemma place_cells_diverse:
  assumes en: "neighborDiversity settings = ''enabled''"
      and pool: "good_pool ts"
  shows "diverse g st \<Longrightarrow> distinct (map cell_pos cs) \<Longrightarrow>
         \<forall>c \<in> set cs. cell_x c < g \<and> cell_y c < g \<and> tileMap st (cell_pos c) = None \<Longrightarrow>
         place_cells settings ts g rng env i cs st = Some (Inr st') \<Longrightarrow> diverse g st'"
proof (induction cs arbitrary: i st)
  case Nil
  then show ?case by simp
next
  case (Cons c cs)
  from Cons.prems(4) obtain st1 where
    s1: "place_cell settings ts g (rng i) i (env i) c st = Some (Inr st1)"
    and r: "place_cells settings ts g rng env (i + 1) cs st1 = Some (Inr st')"
    by (rule place_cells_step)
  have c: "cell_x c < g" "cell_y c < g" "tileMap st (cell_pos c) = None"
    using Cons.prems(3) by simp_all
  note step = place_cell_diverse [OF Cons.prems(1) en pool c s1]
  have d1: "distinct (map cell_pos cs)" using Cons.prems(2) by simp
  have f1: "\<forall>c' \<in> set cs. cell_x c' < g \<and> cell_y c' < g \<and> tileMap st1 (cell_pos c') = None"
  proof
    fix c' assume m: "c' \<in> set cs"
    then have "cell_pos c' \<in> set (map cell_pos cs)" by simp
    moreover have "cell_pos c \<notin> set (map cell_pos cs)" using Cons.prems(2) by simp
    ultimately have "cell_pos c' \<noteq> cell_pos c" by metis
    moreover have "tileMap st (cell_pos c') = None" using Cons.prems(3) m by simp
    ultimately have "cell_pos c' \<notin> dom (tileMap st1)" using step by auto
    then show "cell_x c' < g \<and> cell_y c' < g \<and> tileMap st1 (cell_pos c') = None"
      using Cons.prems(3) m by auto
  qed
  from Cons.IH [OF _ d1 f1 r] step show ?case by blast
qed

lemma initial_diverse: "diverse g initial_GridState"
  by (simp add: diverse_def initial_GridState_def)

lemma grid_diverse:
  assumes en: "neighborDiversity settings = ''enabled''" and pool: "good_pool ts"
      and rm: "row_major sourceData"
      and st: "generateMosaicGrid sourceData ts settings rng env = Some (Inr st)"
  shows "relaxed st = []
       \<and> (\<forall>p \<in> set (tiles st). \<forall>q \<in> set (tiles st).
              adjacent (place_pos p) (place_pos q) \<longrightarrow> place_tile p \<noteq> place_tile q)"
proof -
  let ?g = "src_gridSize sourceData"
  have pc: "place_cells settings ts ?g rng env 0 (cells sourceData) initial_GridState = Some (Inr st)"
    using st by (simp add: generateMosaicGrid_def)
  have pos: "map cell_pos (cells sourceData) = grid_positions ?g"
    using rm by (simp add: row_major_def cell_pos_def [abs_def])
  have dist: "distinct (map cell_pos (cells sourceData))"
    unfolding pos by (rule grid_positions_distinct)
  have ing: "\<forall>c \<in> set (cells sourceData). cell_x c < ?g \<and> cell_y c < ?g
               \<and> tileMap initial_GridState (cell_pos c) = None"
  proof
    fix c assume "c \<in> set (cells sourceData)"
    then have "cell_pos c \<in> set (grid_positions ?g)" unfolding pos [symmetric] by simp
    then show "cell_x c < ?g \<and> cell_y c < ?g \<and> tileMap initial_GridState (cell_pos c) = None"
      by (simp add: grid_positions_set cell_pos_def initial_GridState_def)
  qed
  have dv: "diverse ?g st"
    by (rule place_cells_diverse [OF en pool initial_diverse dist ing pc])
  have adj: "place_tile p \<noteq> place_tile q"
    if "p \<in> set (tiles st)" "q \<in> set (tiles st)" "adjacent (place_pos p) (place_pos q)" for p q
  proof -
    have "tileMap st (place_pos p) = Some (place_tile p)" "tileMap st (place_pos q) = Some (place_tile q)"
      using dv that(1,2) by (simp_all add: diverse_def)
    then show ?thesis using dv that(3) unfolding diverse_def by blast
  qed
  show ?thesis using dv adj by (auto simp add: diverse_def)
qed

text \<open>The definitions unfolded to evaluate a concrete run.\<close>

lemmas run_defs = generateMosaicGrid_def place_cell_def selectBestTileWithNeighborConstraint_def
  selectBestTile_def choose_candidate_def make_candidate_def calculateColorDistance_def
  maxUsage_constrained_def maxUsage_unconstrained_def Math_ceil_div_def getNeighborTiles_def
  directions_def usage_of_def js_index_def random_index_def initial_GridState_def Let_def
  drawTileToCanvas_def undisturbed_def quiet_def

text \<open>
  Five tiles that share one filename (files of the same name picked from different
  folders): every neighbour excludes the whole pool, the fallback places the same name
  again, and all four cells of a 2 x 2 grid get the tile name \<open>a\<close>.
\<close>

theorem same_name_pool_repeats:
  "neighborDiversity demo_settings = ''enabled'' \<and> 5 \<le> length same_name_pool \<and>
   row_major demo_source \<and>
   placements_of (generateMosaicGrid demo_source same_name_pool demo_settings first_index quiet)
     = Some [(0, 0, ''a''), (1, 0, ''a''), (0, 1, ''a''), (1, 1, ''a'')]"
proof -
  have "placements_of (generateMosaicGrid demo_source same_name_pool demo_settings first_index quiet)
     = Some [(0, 0, ''a''), (1, 0, ''a''), (0, 1, ''a''), (1, 1, ''a'')]"
    by (simp add: placements_of_def run_defs demo_source_def demo_settings_def demo_cell_def
          demo_tile_def same_name_pool_def first_index_def)
  then show ?thesis using demo_row_major by (simp add: demo_settings_def same_name_pool_def)
qed

text \<open>
  Five differently named tiles of which one is named by the empty string: \<open>getNeighborTiles\<close>
  drops the empty name as falsy, so the tile placed at \<open>(2, 0)\<close> is not excluded at
  \<open>(2, 1)\<close> and is placed there again, without any fallback.
\<close>

lemma empty_name_repeats:
  "neighborDiversity grid3_settings = ''enabled'' \<and> card (set (map filename empty_name_pool)) = 5 \<and>
   row_major grid3_source \<and>
   placements_of (generateMosaicGrid grid3_source empty_name_pool grid3_settings first_index quiet)
     = Some [(0, 0, ''b''), (1, 0, ''c''), (2, 0, []), (0, 1, ''d''), (1, 1, ''e''), (2, 1, []),
             (0, 2, ''b''), (1, 2, ''c''), (2, 2, ''d'')]"
proof -
  have "placements_of (generateMosaicGrid grid3_source empty_name_pool grid3_settings first_index quiet)
     = Some [(0, 0, ''b''), (1, 0, ''c''), (2, 0, []), (0, 1, ''d''), (1, 1, ''e''), (2, 1, []),
             (0, 2, ''b''), (1, 2, ''c''), (2, 2, ''d'')]"
    by (simp add: placements_of_def run_defs grid3_source_def grid3_settings_def demo_cell_def
          demo_tile_def empty_name_pool_def first_index_def)
  moreover have "row_major grid3_source"
    by (simp add: row_major_def grid3_source_def demo_cell_def grid_positions_def upt_rec)
  moreover have "card (set (map filename empty_name_pool)) = 5"
    by (simp add: empty_name_pool_def demo_tile_def)
  ultimately show ?thesis by (simp add: grid3_settings_def)
qed

text \<open>
  C2, as the code has it: the fallback to the unconstrained selection is taken exactly when
  excluding the neighbours' names leaves no candidate, and a tile chosen without the
  fallback has a name different from every collected neighbour name. With neighbour
  diversity enabled and a pool that carries at least five different filenames, none of
  them empty, in every run of \<open>generateMosaicGrid\<close> over the cells of the whole grid that
  completes the fallback was never taken and no two horizontally or vertically adjacent
  placements carry the same tile name.
\<close>

theorem neighbor_diversity:
  "(fst (selectBestTileWithNeighborConstraint cell ts uc nb settings u)
      \<longleftrightarrow> filter (\<lambda>t. filename t \<notin> set nb) ts = [])
   \<and> (\<forall>t. snd (selectBestTileWithNeighborConstraint cell ts uc nb settings u) = Inr t
           \<and> \<not> fst (selectBestTileWithNeighborConstraint cell ts uc nb settings u)
         \<longrightarrow> filename t \<notin> set nb)
   \<and> (neighborDiversity settings = ''enabled'' \<and> good_pool ts \<and> row_major sourceData \<longrightarrow>
        (\<forall>st. generateMosaicGrid sourceData ts settings rng env = Some (Inr st) \<longrightarrow>
            relaxed st = []
            \<and> (\<forall>p \<in> set (tiles st). \<forall>q \<in> set (tiles st).
                  adjacent (place_pos p) (place_pos q) \<longrightarrow> place_tile p \<noteq> place_tile q)))"
proof -
  have 3: "neighborDiversity settings = ''enabled'' \<and> good_pool ts \<and> row_major sourceData \<longrightarrow>
        (\<forall>st. generateMosaicGrid sourceData ts settings rng env = Some (Inr st) \<longrightarrow>
            relaxed st = []
            \<and> (\<forall>p \<in> set (tiles st). \<forall>q \<in> set (tiles st).
                  adjacent (place_pos p) (place_pos q) \<longrightarrow> place_tile p \<noteq> place_tile q))"
    using grid_diverse [of settings ts sourceData rng env] by (intro impI allI) blast
  have 2: "\<forall>t. snd (selectBestTileWithNeighborConstraint cell ts uc nb settings u) = Inr t
           \<and> \<not> fst (selectBestTileWithNeighborConstraint cell ts uc nb settings u)
         \<longrightarrow> filename t \<notin> set nb"
    using constrained_avoids [of cell ts uc nb settings u] by blast
  show ?thesis
    by (intro conjI) (rule constrained_fallback_iff, rule 2, rule 3)
qed

theorem neighbor_diversity_witness:
  "neighborDiversity demo_settings = ''enabled'' \<and> good_pool six_tile_pool \<and> row_major demo_source
   \<and> (\<exists>st. generateMosaicGrid demo_source six_tile_pool demo_settings first_index quiet = Some (Inr st)
          \<and> relaxed st = []
          \<and> (\<forall>p \<in> set (tiles st). \<forall>q \<in> set (tiles st).
                adjacent (place_pos p) (place_pos q) \<longrightarrow> place_tile p \<noteq> place_tile q))"
proof -
  have en: "neighborDiversity demo_settings = ''enabled''" by (simp add: demo_settings_def)
  have gp: "good_pool six_tile_pool"
    by (simp add: good_pool_def six_tile_pool_def demo_tile_def)
  have "six_tile_pool \<noteq> []" "0 < tileSize demo_settings"
    by (simp_all add: six_tile_pool_def demo_settings_def)
  then obtain st where
    st: "generateMosaicGrid demo_source six_tile_pool demo_settings first_index quiet = Some (Inr st)"
    using generateMosaicGrid_undisturbed by blast
  from neighbor_diversity [where settings = demo_settings and ts = six_tile_pool
         and sourceData = demo_source and rng = first_index and env = quiet,
         THEN conjunct2, THEN conjunct2] en gp demo_row_major st
  show ?thesis by blast
qed

section \<open>The usage ceiling\<close>



lemma Math_ceil_div_pos: "0 < b \<Longrightarrow> Math_ceil_div a b = Num (nat \<lceil>real a / real b\<rceil>)"
  by (simp add: Math_ceil_div_def)

lemma ceil_ratio_ge_1:
  assumes "0 < a" "0 < b"
  shows "1 \<le> nat \<lceil>real a / real b\<rceil>"
proof -
  have "0 < real a / real b" using assms by simp
  then have "0 < \<lceil>real a / real b\<rceil>" by (simp only: zero_less_ceiling)
  then show ?thesis by linarith
qed

lemma best_candidate_pool:
  assumes "best_candidate cs mu t u = Some c"
  shows "c \<in> set (chosen_pool cs mu)"
proof -
  have bu: "set (best_usage cs mu) \<subseteq> set (chosen_pool cs mu)"
    unfolding best_usage_def by auto
  have "set (top_candidates cs mu t) \<subseteq> set (sort_key distance (best_usage cs mu))"
    unfolding top_candidates_def by (rule set_take_subset)
  then have tc: "set (top_candidates cs mu t) \<subseteq> set (chosen_pool cs mu)"
    using bu by simp
  show ?thesis
  proof (cases "length (best_usage cs mu) = 1")
    case True
    then have "js_index (best_usage cs mu) 0 = Some c"
      using assms by (simp add: best_candidate_def)
    from js_index_mem [OF this] bu show ?thesis by auto
  next
    case False
    then have "js_index (top_candidates cs mu t) (random_index u (length (top_candidates cs mu t))) = Some c"
      using assms by (simp add: best_candidate_def)
    from js_index_mem [OF this] tc show ?thesis by auto
  qed
qed

lemma choose_candidate_limited:
  assumes "choose_candidate cs (Num m) t u = Inr x"
      and "filter (\<lambda>c. usage c < m) cs \<noteq> []"
  shows "x \<in> tile ` set (take 10 (filter (\<lambda>c. usage c < m) cs))"
proof -
  from assms(1) obtain c where c: "best_candidate cs (Num m) t u = Some c" "x = tile c"
    unfolding choose_candidate_eq by (auto split: option.splits)
  have "chosen_pool cs (Num m) = take 10 (filter (\<lambda>c. usage c < m) cs)"
    using assms(2) by (simp add: chosen_pool_def)
  then show ?thesis using best_candidate_pool [OF c(1)] c(2) by simp
qed

lemma limited_usage:
  assumes "x \<in> tile ` set (take 10 (filter (\<lambda>c. usage c < m) (sort_key distance (map (make_candidate cell uc settings) ts))))"
  shows "usage_of uc (filename x) < m"
proof -
  from assms obtain c where c: "x = tile c"
    "c \<in> set (take 10 (filter (\<lambda>c. usage c < m) (sort_key distance (map (make_candidate cell uc settings) ts))))"
    by blast
  from in_set_takeD [OF c(2)] have "usage c < m" "c \<in> set (map (make_candidate cell uc settings) ts)"
    by simp_all
  then show ?thesis using c(1) by (auto simp add: make_candidate_def)
qed

text \<open>
  C6: with at least one grid cell and at least one tile, the usage ceiling computed in the
  constrained and in the unconstrained selection procedure is
  \<open>ceil(totalCells / tileCount) + ceil(tileCount / 20)\<close>, and it is the number both
  procedures filter their candidates with: each selects among the candidates sorted by
  distance with that ceiling, and whenever some candidate's usage is below it, the
  selected tile is one of the first ten candidates below the ceiling, so its usage is
  below the ceiling too.
\<close>

theorem maxUsage_formula:
  assumes "0 < gridSize settings" and "tileMeta \<noteq> []"
  shows "maxUsage_constrained settings tileMeta =
           Num (nat \<lceil>real (gridSize settings * gridSize settings) / real (length tileMeta)\<rceil>
                + nat \<lceil>real (length tileMeta) / 20\<rceil>)
       \<and> maxUsage_unconstrained settings tileMeta =
           Num (nat \<lceil>real (gridSize settings * gridSize settings) / real (length tileMeta)\<rceil>
                + nat \<lceil>real (length tileMeta) / 20\<rceil>)
       \<and> selectBestTile cell tileMeta uc settings u =
           choose_candidate (sort_key distance (map (make_candidate cell uc settings) tileMeta))
             (Num (nat \<lceil>real (gridSize settings * gridSize settings) / real (length tileMeta)\<rceil>
                   + nat \<lceil>real (length tileMeta) / 20\<rceil>)) 3 u
       \<and> selectBestTileWithNeighborConstraint cell tileMeta uc nb settings u =
           (if filter (\<lambda>t. filename t \<notin> set nb) tileMeta = []
            then (True, selectBestTile cell tileMeta uc settings u)
            else (False,
                  choose_candidate
                    (sort_key distance (map (make_candidate cell uc settings)
                       (filter (\<lambda>t. filename t \<notin> set nb) tileMeta)))
                    (Num (nat \<lceil>real (gridSize settings * gridSize settings) / real (length tileMeta)\<rceil>
                          + nat \<lceil>real (length tileMeta) / 20\<rceil>)) 4 u))
       \<and> (\<forall>t. selectBestTile cell tileMeta uc settings u = Inr t
              \<and> filter (\<lambda>c. usage c <
                     nat \<lceil>real (gridSize settings * gridSize settings) / real (length tileMeta)\<rceil>
                     + nat \<lceil>real (length tileMeta) / 20\<rceil>)
                   (sort_key distance (map (make_candidate cell uc settings) tileMeta)) \<noteq> []
            \<longrightarrow> t \<in> tile ` set (take 10 (filter (\<lambda>c. usage c <
                     nat \<lceil>real (gridSize settings * gridSize settings) / real (length tileMeta)\<rceil>
                     + nat \<lceil>real (length tileMeta) / 20\<rceil>)
                   (sort_key distance (map (make_candidate cell uc settings) tileMeta))))
              \<and> usage_of uc (filename t) <
                     nat \<lceil>real (gridSize settings * gridSize settings) / real (length tileMeta)\<rceil>
                     + nat \<lceil>real (length tileMeta) / 20\<rceil>)
       \<and> (\<forall>t. selectBestTileWithNeighborConstraint cell tileMeta uc nb settings u = (False, Inr t)
              \<and> filter (\<lambda>c. usage c <
                     nat \<lceil>real (gridSize settings * gridSize settings) / real (length tileMeta)\<rceil>
                     + nat \<lceil>real (length tileMeta) / 20\<rceil>)
                   (sort_key distance (map (make_candidate cell uc settings)
                      (filter (\<lambda>t. filename t \<notin> set nb) tileMeta))) \<noteq> []
            \<longrightarrow> t \<in> tile ` set (take 10 (filter (\<lambda>c. usage c <
                     nat \<lceil>real (gridSize settings * gridSize settings) / real (length tileMeta)\<rceil>
                     + nat \<lceil>real (length tileMeta) / 20\<rceil>)
                   (sort_key distance (map (make_candidate cell uc settings)
                      (filter (\<lambda>t. filename t \<notin> set nb) tileMeta)))))
              \<and> usage_of uc (filename t) <
                     nat \<lceil>real (gridSize settings * gridSize settings) / real (length tileMeta)\<rceil>
                     + nat \<lceil>real (length tileMeta) / 20\<rceil>)"
proof -
  let ?a = "gridSize settings * gridSize settings" and ?n = "length tileMeta"
  let ?m = "nat \<lceil>real ?a / real ?n\<rceil> + nat \<lceil>real ?n / 20\<rceil>"
  let ?all = "sort_key distance (map (make_candidate cell uc settings) tileMeta)"
  let ?free = "filter (\<lambda>t. filename t \<notin> set nb) tileMeta"
  let ?allc = "sort_key distance (map (make_candidate cell uc settings) ?free)"
  have n: "0 < ?n" using assms(2) by simp
  have a: "0 < ?a" using assms(1) by simp
  have base: "Math_max_1 (Math_ceil_div ?a ?n) = Num (nat \<lceil>real ?a / real ?n\<rceil>)"
    using ceil_ratio_ge_1 [OF a n] by (simp add: Math_ceil_div_pos [OF n] max_def)
  have extra: "Math_ceil_div ?n 20 = Num (nat \<lceil>real ?n / 20\<rceil>)"
    by (simp add: Math_ceil_div_def)
  have c: "maxUsage_constrained settings tileMeta = Num ?m"
    unfolding maxUsage_constrained_def Let_def base extra by simp
  have u: "maxUsage_unconstrained settings tileMeta = Num ?m"
    unfolding maxUsage_unconstrained_def Let_def base extra by simp
  have s: "selectBestTile cell tileMeta uc settings u = choose_candidate ?all (Num ?m) 3 u"
    unfolding selectBestTile_def Let_def u ..
  have k: "selectBestTileWithNeighborConstraint cell tileMeta uc nb settings u =
           (if ?free = [] then (True, selectBestTile cell tileMeta uc settings u)
            else (False, choose_candidate ?allc (Num ?m) 4 u))"
    unfolding constrained_unfold c ..
  have b1: "t \<in> tile ` set (take 10 (filter (\<lambda>c. usage c < ?m) ?all)) \<and> usage_of uc (filename t) < ?m"
    if "selectBestTile cell tileMeta uc settings u = Inr t \<and> filter (\<lambda>c. usage c < ?m) ?all \<noteq> []" for t
  proof -
    have "t \<in> tile ` set (take 10 (filter (\<lambda>c. usage c < ?m) ?all))"
      by (rule choose_candidate_limited [OF that [unfolded s, THEN conjunct1] that [THEN conjunct2]])
    then show ?thesis using limited_usage [of t ?m cell uc settings tileMeta] by blast
  qed
  have b2: "t \<in> tile ` set (take 10 (filter (\<lambda>c. usage c < ?m) ?allc)) \<and> usage_of uc (filename t) < ?m"
    if h: "selectBestTileWithNeighborConstraint cell tileMeta uc nb settings u = (False, Inr t)
          \<and> filter (\<lambda>c. usage c < ?m) ?allc \<noteq> []" for t
  proof -
    have "(if ?free = [] then (True, selectBestTile cell tileMeta uc settings u)
            else (False, choose_candidate ?allc (Num ?m) 4 u)) = (False, Inr t)"
      using h [THEN conjunct1] unfolding k .
    then have "choose_candidate ?allc (Num ?m) 4 u = Inr t"
      by (cases "?free = []") simp_all
    then have "t \<in> tile ` set (take 10 (filter (\<lambda>c. usage c < ?m) ?allc))"
      by (rule choose_candidate_limited [OF _ h [THEN conjunct2]])
    then show ?thesis using limited_usage [of t ?m cell uc settings ?free] by blast
  qed
  show ?thesis
    apply (intro conjI)
         apply (rule c)
        apply (rule u)
       apply (rule s)
      apply (rule k)
     apply (use b1 in blast)
    apply (use b2 in blast)
    done
qed

theorem maxUsage_formula_witness:
  "0 < gridSize demo_settings \<and> [demo_tile ''a'' 10, demo_tile ''b'' 20, demo_tile ''c'' 30] \<noteq> []
   \<and> maxUsage_constrained demo_settings [demo_tile ''a'' 10, demo_tile ''b'' 20, demo_tile ''c'' 30] = Num 3
   \<and> maxUsage_unconstrained demo_settings [demo_tile ''a'' 10, demo_tile ''b'' 20, demo_tile ''c'' 30] = Num 3
   \<and> selectBestTile (demo_cell 0 0 10) [demo_tile ''a'' 10, demo_tile ''b'' 20, demo_tile ''c'' 30]
        [(''a'', 3)] demo_settings 0 = Inr (demo_tile ''b'' 20)
   \<and> usage_of [(''a'', 3)] (filename (demo_tile ''b'' 20)) < 3"
proof -
  let ?ts = "[demo_tile ''a'' 10, demo_tile ''b'' 20, demo_tile ''c'' 30]"
  have g: "0 < gridSize demo_settings" by (simp add: demo_settings_def)
  have ne: "?ts \<noteq> []" by simp
  have v: "nat \<lceil>real (gridSize demo_settings * gridSize demo_settings) / real (length ?ts)\<rceil>
                + nat \<lceil>real (length ?ts) / 20\<rceil> = 3"
    by (simp add: demo_settings_def)
  note t = maxUsage_formula [OF g ne, of "demo_cell 0 0 10" "[(''a'', 3)]" 0 "[]", unfolded v]
  have sel: "selectBestTile (demo_cell 0 0 10) ?ts [(''a'', 3)] demo_settings 0 = Inr (demo_tile ''b'' 20)"
    by (simp add: selectBestTile_def choose_candidate_def make_candidate_def
          calculateColorDistance_def maxUsage_unconstrained_def Math_ceil_div_def usage_of_def
          js_index_def random_index_def Let_def demo_settings_def demo_cell_def demo_tile_def)
  have lim: "filter (\<lambda>c. usage c < 3)
       (sort_key distance (map (make_candidate (demo_cell 0 0 10) [(''a'', 3)] demo_settings) ?ts)) \<noteq> []"
    by (simp add: make_candidate_def calculateColorDistance_def usage_of_def demo_settings_def
          demo_cell_def demo_tile_def)
  have "usage_of [(''a'', 3)] (filename (demo_tile ''b'' 20)) < 3"
    using t [THEN conjunct2, THEN conjunct2, THEN conjunct2, THEN conjunct2, THEN conjunct1,
             THEN spec, of "demo_tile ''b'' 20"] sel lim by blast
  then show ?thesis using g sel t by simp
qed

section \<open>Terminal messages of a run\<close>

lemma handleMessage_terminal:
  "filter is_terminal (outbox (handleMessage c w)) = filter is_terminal (outbox w)"
  by (cases c)
     (simp_all add: start_run_def pauseProcessing_def resumeProcessing_def cancelProcessing_def
        sendMessage_def)

lemma handleMessage_not_cancelled:
  "c \<noteq> Cancel \<Longrightarrow> \<not> isCancelled w \<Longrightarrow> \<not> isCancelled (handleMessage c w)"
  by (cases c) (simp_all add: start_run_def pauseProcessing_def resumeProcessing_def sendMessage_def)

lemma fold_handleMessage_terminal:
  "filter is_terminal (outbox (fold handleMessage cs w)) = filter is_terminal (outbox w)"
  by (induction cs arbitrary: w) (simp_all add: handleMessage_terminal)

lemma fold_handleMessage_not_cancelled:
  "Cancel \<notin> set cs \<Longrightarrow> \<not> isCancelled w \<Longrightarrow> \<not> isCancelled (fold handleMessage cs w)"
proof (induction cs arbitrary: w)
  case Nil
  then show ?case by simp
next
  case (Cons c cs)
  then have "c \<noteq> Cancel" "Cancel \<notin> set cs" by auto
  then show ?case
    using Cons.IH [of "handleMessage c w"] handleMessage_not_cancelled [of c w] Cons.prems(2)
    by simp
qed

lemma poll_terminal:
  "poll polls w = Some w' \<Longrightarrow> filter is_terminal (outbox w') = filter is_terminal (outbox w)"
  by (induction polls arbitrary: w) (auto simp add: fold_handleMessage_terminal split: if_splits)

lemma poll_not_cancelled:
  "poll polls w = Some w' \<Longrightarrow> Cancel \<notin> set (concat polls) \<Longrightarrow> \<not> isCancelled w \<Longrightarrow> \<not> isCancelled w'"
proof (induction polls arbitrary: w)
  case Nil
  then show ?case by (simp split: if_splits)
next
  case (Cons b rest)
  show ?case
  proof (cases "isPaused w \<and> \<not> isCancelled w")
    case True
    then have p: "poll rest (fold handleMessage b w) = Some w'" using Cons.prems(1) by simp
    have "Cancel \<notin> set b" "Cancel \<notin> set (concat rest)" using Cons.prems(2) by simp_all
    then show ?thesis
      using Cons.IH [OF p] fold_handleMessage_not_cancelled [of b w] Cons.prems(3) by blast
  next
    case False
    then have "w' = w" using Cons.prems(1) by auto
    then show ?thesis using Cons.prems(3) by simp
  qed
qed

lemma checkPauseCancel_cases:
  assumes "checkPauseCancel polls w = Some (res, w')"
  obtains (thrown) "isCancelled w" "res = Inl ProcessingCancelled" "w' = w"
        | (returned) "\<not> isCancelled w" "res = Inr ()" "poll polls w = Some w'"
  using assms by (auto simp add: checkPauseCancel_def split: if_splits)

lemma checkPauseCancel_terminal:
  assumes "checkPauseCancel polls w = Some (res, w')"
  shows "filter is_terminal (outbox w') = filter is_terminal (outbox w)"
  using assms by (cases rule: checkPauseCancel_cases) (simp_all add: poll_terminal)

lemma checkPauseCancel_not_cancelled:
  assumes "checkPauseCancel polls w = Some (res, w')" "Cancel \<notin> set (concat polls)" "\<not> isCancelled w"
  shows "\<not> isCancelled w'"
  using assms(1)
proof (cases rule: checkPauseCancel_cases)
  case thrown
  then show ?thesis using assms(3) by simp
next
  case returned
  then show ?thesis using poll_not_cancelled [OF _ assms(2,3)] by simp
qed

lemma run_stages_step:
  assumes "run_stages (s # rest) w = Some (res, w')"
  obtains (await) cs where "s = Await cs" "run_stages rest (fold handleMessage cs w) = Some (res, w')"
    | (thrown) polls where "s = CheckPauseCancel polls" "isCancelled w"
        "res = Inl ProcessingCancelled" "w' = w"
    | (checked) polls r1 w1 where "s = CheckPauseCancel polls \<or> s = BatchCheckPauseCancel polls"
        "checkPauseCancel polls w = Some (r1, w1)" "run_stages rest w1 = Some (res, w')"
    | (raised) e where "s = Stage (Some (Inl e))" "res = Inl e" "w' = w"
    | (passed) "s = Stage (Some (Inr ()))" "run_stages rest w = Some (res, w')"
proof (cases s)
  case (Await cs)
  show ?thesis by (rule await [of cs]) (use assms Await in simp_all)
next
  case (CheckPauseCancel polls)
  show ?thesis
  proof (cases "checkPauseCancel polls w")
    case None
    then show ?thesis using assms CheckPauseCancel by simp
  next
    case (Some p)
    obtain r1 w1 where p: "p = (r1, w1)" by (cases p)
    show ?thesis
    proof (cases r1)
      case (Inl e)
      have c: "isCancelled w \<and> e = ProcessingCancelled \<and> w1 = w"
        using Some p Inl by (auto simp add: checkPauseCancel_def split: if_splits)
      show ?thesis
        by (rule thrown [of polls]) (use assms CheckPauseCancel Some p Inl c in simp_all)
    next
      case (Inr u)
      show ?thesis
        by (rule checked [of polls r1 w1]) (use assms CheckPauseCancel Some p Inr in simp_all)
    qed
  qed
next
  case (BatchCheckPauseCancel polls)
  show ?thesis
  proof (cases "checkPauseCancel polls w")
    case None
    then show ?thesis using assms BatchCheckPauseCancel by simp
  next
    case (Some p)
    obtain r1 w1 where p: "p = (r1, w1)" by (cases p)
    show ?thesis
      by (rule checked [of polls r1 w1]) (use assms BatchCheckPauseCancel Some p in simp_all)
  qed
next
  case (Stage r)
  show ?thesis
  proof (cases r)
    case None
    then show ?thesis using assms Stage by simp
  next
    case (Some q)
    show ?thesis
    proof (cases q)
      case (Inl e)
      show ?thesis by (rule raised [of e]) (use assms Stage Some Inl in simp_all)
    next
      case (Inr u)
      show ?thesis by (rule passed) (use assms Stage Some Inr in simp_all)
    qed
  qed
qed

lemma run_stages_terminal:
  "run_stages body w = Some (res, w') \<Longrightarrow>
     filter is_terminal (outbox w') = filter is_terminal (outbox w)"
proof (induction body arbitrary: w)
  case Nil
  then show ?case by simp
next
  case (Cons s rest)
  from Cons.prems show ?case
  proof (cases rule: run_stages_step)
    case (await cs)
    then show ?thesis using Cons.IH [of "fold handleMessage cs w"]
      by (simp add: fold_handleMessage_terminal)
  next
    case (thrown polls)
    then show ?thesis by simp
  next
    case (checked polls r1 w1)
    then show ?thesis using checkPauseCancel_terminal [of polls w r1 w1] Cons.IH [of w1] by simp
  next
    case (raised e)
    then show ?thesis by simp
  next
    case passed
    then show ?thesis using Cons.IH [of w] by simp
  qed
qed

lemma run_stages_not_cancelled:
  "run_stages body w = Some (res, w') \<Longrightarrow> never_cancelled body \<Longrightarrow> \<not> isCancelled w \<Longrightarrow>
     \<not> isCancelled w'"
proof (induction body arbitrary: w)
  case Nil
  then show ?case by simp
next
  case (Cons s rest)
  have nc: "never_cancelled rest" "Cancel \<notin> set (delivered s)"
    using Cons.prems(2) by (simp_all add: never_cancelled_def)
  from Cons.prems(1) show ?case
  proof (cases rule: run_stages_step)
    case (await cs)
    then show ?thesis
      using Cons.IH [of "fold handleMessage cs w", OF _ nc(1)] nc(2) Cons.prems(3)
        fold_handleMessage_not_cancelled [of cs w]
      by simp
  next
    case (thrown polls)
    then show ?thesis using Cons.prems(3) by simp
  next
    case (checked polls r1 w1)
    then have np: "Cancel \<notin> set (concat polls)" using nc(2) by auto
    show ?thesis
      using checkPauseCancel_not_cancelled [OF checked(2) np Cons.prems(3)]
        Cons.IH [OF checked(3) nc(1)] by simp
  next
    case (raised e)
    then show ?thesis using Cons.prems(3) by simp
  next
    case passed
    then show ?thesis using Cons.IH [OF _ nc(1) Cons.prems(3)] by simp
  qed
qed

lemma run_stages_append:
  "run_stages pre w = Some (Inr (), w1) \<Longrightarrow> run_stages (pre @ post) w = run_stages post w1"
proof (induction pre arbitrary: w)
  case Nil
  then show ?case by simp
next
  case (Cons s rest)
  from Cons.prems show ?case
  proof (cases rule: run_stages_step)
    case (await cs)
    then show ?thesis using Cons.IH [of "fold handleMessage cs w"] by simp
  next
    case (thrown polls)
    then show ?thesis by simp
  next
    case (checked polls r1 w2)
    from checked(1) show ?thesis
    proof
      assume s: "s = CheckPauseCancel polls"
      have "r1 = Inr ()"
        using Cons.prems checked(2) unfolding s by (cases r1) simp_all
      then show ?thesis using s checked(2) Cons.IH [OF checked(3)] by simp
    next
      assume s: "s = BatchCheckPauseCancel polls"
      then show ?thesis using checked(2) Cons.IH [OF checked(3)] by simp
    qed
  next
    case (raised e)
    then show ?thesis by simp
  next
    case passed
    then show ?thesis using Cons.IH [of w] by simp
  qed
qed

lemma generateMosaic_Some:
  assumes "generateMosaic body r w0 = Some w"
  obtains (completed) w1 where "run_stages body (start_run w0) = Some (Inr (), w1)"
            "outbox w = outbox w1 @ [Complete r]"
        | (failed) e w1 where "run_stages body (start_run w0) = Some (Inl e, w1)"
            "\<not> isCancelled w1" "outbox w = outbox w1 @ [Error e]"
        | (silent) e w1 where "run_stages body (start_run w0) = Some (Inl e, w1)"
            "isCancelled w1" "outbox w = outbox w1"
proof (cases "run_stages body (start_run w0)")
  case None
  then show ?thesis using assms by (simp add: generateMosaic_def)
next
  case (Some p)
  obtain res w1 where p: "p = (res, w1)" by (cases p)
  show ?thesis
  proof (cases res)
    case (Inl e)
    show ?thesis
    proof (cases "isCancelled w1")
      case True
      show ?thesis
        by (rule silent [of e w1])
           (use assms Some p Inl True in \<open>auto simp add: generateMosaic_def\<close>)
    next
      case False
      show ?thesis
        by (rule failed [of e w1])
           (use assms Some p Inl False in \<open>auto simp add: generateMosaic_def sendMessage_def\<close>)
    qed
  next
    case (Inr u)
    show ?thesis
      by (rule completed [of w1])
         (use assms Some p Inr in \<open>auto simp add: generateMosaic_def sendMessage_def\<close>)
  qed
qed

lemma start_run_terminal: "filter is_terminal (outbox (start_run w0)) = filter is_terminal (outbox w0)"
  by (simp add: start_run_def)

lemma start_fresh_terminal: "filter is_terminal (outbox (start_run fresh_worker)) = []"
  by (simp add: start_run_def fresh_worker_def)

lemma start_fresh_not_cancelled: "\<not> isCancelled (start_run w0)"
  by (simp add: start_run_def)

lemma run_outcome:
  assumes g: "generateMosaic body r w0 = Some w"
      and rs: "run_stages body (start_run w0) = Some (res, w1)"
  shows "terminal_of_run w0 w =
           (case res of Inl e \<Rightarrow> if isCancelled w1 then [] else [Error e] | Inr _ \<Rightarrow> [Complete r])"
proof -
  have t: "filter is_terminal (outbox w1) = filter is_terminal (outbox w0)"
    using run_stages_terminal [OF rs] by (simp add: start_run_terminal)
  from g show ?thesis
  proof (cases rule: generateMosaic_Some)
    case (completed w2)
    then show ?thesis using rs t by (simp add: terminal_of_run_def)
  next
    case (failed e w2)
    then show ?thesis using rs t by (simp add: terminal_of_run_def)
  next
    case (silent e w2)
    then show ?thesis using rs t by (simp add: terminal_of_run_def)
  qed
qed

lemma run_at_most_one:
  assumes g: "generateMosaic body r w0 = Some w"
  shows "length (terminal_of_run w0 w) \<le> 1"
    and "\<forall>m \<in> set (terminal_of_run w0 w). m = Complete r \<or> (\<exists>e. m = Error e)"
    and "never_cancelled body \<Longrightarrow> length (terminal_of_run w0 w) = 1"
proof -
  obtain res w1 where rs: "run_stages body (start_run w0) = Some (res, w1)"
    using g by (cases "run_stages body (start_run w0)") (auto simp add: generateMosaic_def)
  note o = run_outcome [OF g rs]
  show "length (terminal_of_run w0 w) \<le> 1" unfolding o by (cases res) simp_all
  show "\<forall>m \<in> set (terminal_of_run w0 w). m = Complete r \<or> (\<exists>e. m = Error e)"
    unfolding o by (cases res) simp_all
  assume nc: "never_cancelled body"
  have "\<not> isCancelled w1"
    by (rule run_stages_not_cancelled [OF rs nc start_fresh_not_cancelled])
  then show "length (terminal_of_run w0 w) = 1" unfolding o by (cases res) simp_all
qed

lemma run_cancelled_silent:
  fixes r :: 'a and w0 w1 :: "'a Worker"
  assumes "run_stages pre (start_run w0) = Some (Inr (), w1)" and "isCancelled w1"
  shows "\<exists>w. generateMosaic (pre @ CheckPauseCancel polls # post) r w0 = Some w
           \<and> terminal_of_run w0 w = []"
proof -
  have rb: "run_stages (pre @ CheckPauseCancel polls # post) (start_run w0)
              = Some (Inl ProcessingCancelled, w1)"
    using run_stages_append [OF assms(1), of "CheckPauseCancel polls # post"] assms(2)
    by (simp add: checkPauseCancel_def)
  then obtain w where w: "generateMosaic (pre @ CheckPauseCancel polls # post) r w0 = Some w"
    by (simp add: generateMosaic_def)
  from run_outcome [OF w rb] assms(2) w show ?thesis by simp
qed

lemmas worker_defs = terminal_messages_def generateMosaic_def start_run_def fresh_worker_def
  checkPauseCancel_def cancelProcessing_def pauseProcessing_def resumeProcessing_def
  sendMessage_def first_cell_run_def

text \<open>
  Three runs with a cancel message. In the first it is handled during the \<open>await\<close> of the
  first preview of the placement loop: the \<open>checkPauseCancel\<close> that follows throws, the
  \<open>catch\<close> block finds the flag set and sends nothing, so the run ends with no terminal
  message at all, neither "cancelled" nor any other. In the second it is handled after the
  last \<open>checkPauseCancel\<close>, during the \<open>await\<close> of \<open>finalizeResult\<close>, and in the third a
  \<open>generate_mosaic\<close> message handled during the same \<open>await\<close> resets the flag: these two runs
  post \<open>complete\<close>.
\<close>

theorem cancelled_run_emits_nothing:
  "terminal_messages (generateMosaic (first_cell_run [Cancel]) () fresh_worker) = Some []
   \<and> terminal_messages (generateMosaic (first_cell_run [] @ [Await [Cancel]]) () fresh_worker)
       = Some [Complete ()]
   \<and> terminal_messages (generateMosaic (first_cell_run [Cancel, Generate]) () fresh_worker)
       = Some [Complete ()]"
  by (simp add: worker_defs)

text \<open>
  C5, as the code has it: a run that ends has posted at most one terminal message, which is
  \<open>Complete\<close> or \<open>Error\<close>, there being no message for a cancelled run: \<open>Complete\<close> if the
  body of the \<open>try\<close> block returned, \<open>Error\<close> if it threw while the cancel flag was not set,
  and nothing if it threw while the flag was set. If no cancel message is ever handled the
  run has posted exactly one. A run that comes to a \<open>checkPauseCancel\<close> outside
  \<open>processTileImages\<close> while the cancel flag is set ends there with no terminal message.
\<close>

theorem run_terminal_messages:
  fixes r :: 'a and w0 :: "'a Worker"
  shows
  "(\<forall>w. generateMosaic body r w0 = Some w \<longrightarrow>
        length (terminal_of_run w0 w) \<le> 1
      \<and> (\<forall>m \<in> set (terminal_of_run w0 w). m = Complete r \<or> (\<exists>e. m = Error e))
      \<and> (never_cancelled body \<longrightarrow> length (terminal_of_run w0 w) = 1)
      \<and> (\<forall>res w1. run_stages body (start_run w0) = Some (res, w1) \<longrightarrow>
            terminal_of_run w0 w =
              (case res of Inl e \<Rightarrow> if isCancelled w1 then [] else [Error e]
               | Inr _ \<Rightarrow> [Complete r])))
   \<and> (\<forall>pre polls post. \<forall>w1 :: 'a Worker.
        body = pre @ CheckPauseCancel polls # post \<and>
        run_stages pre (start_run w0) = Some (Inr (), w1) \<and> isCancelled w1 \<longrightarrow>
        (\<exists>w. generateMosaic body r w0 = Some w \<and> terminal_of_run w0 w = []))"
proof -
  have 1: "length (terminal_of_run w0 w) \<le> 1
      \<and> (\<forall>m \<in> set (terminal_of_run w0 w). m = Complete r \<or> (\<exists>e. m = Error e))
      \<and> (never_cancelled body \<longrightarrow> length (terminal_of_run w0 w) = 1)
      \<and> (\<forall>res w1. run_stages body (start_run w0) = Some (res, w1) \<longrightarrow>
            terminal_of_run w0 w =
              (case res of Inl e \<Rightarrow> if isCancelled w1 then [] else [Error e]
               | Inr _ \<Rightarrow> [Complete r]))"
    if g: "generateMosaic body r w0 = Some w" for w
    using run_at_most_one [OF g] run_outcome [OF g] by blast
  have 2: "\<exists>w. generateMosaic body r w0 = Some w \<and> terminal_of_run w0 w = []"
    if "body = pre @ CheckPauseCancel polls # post \<and>
        run_stages pre (start_run w0) = Some (Inr (), w1) \<and> isCancelled w1"
    for pre polls post and w1 :: "'a Worker"
    using run_cancelled_silent [of pre w0 w1 polls post r] that by simp
  show ?thesis using 1 2 by blast
qed

theorem run_terminal_messages_witness:
  "never_cancelled (first_cell_run [Pause, Resume]) \<and>
   (\<exists>w. generateMosaic (first_cell_run [Pause, Resume]) () fresh_worker = Some w
       \<and> terminal_of_run fresh_worker w = [Complete ()]) \<and>
   first_cell_run [Cancel] =
      [CheckPauseCancel [], BatchCheckPauseCancel [], CheckPauseCancel [], Stage (Some (Inr ())),
       Await [Cancel]] @ CheckPauseCancel [] # [] \<and>
   run_stages [CheckPauseCancel [], BatchCheckPauseCancel [], CheckPauseCancel [],
               Stage (Some (Inr ())), Await [Cancel]] (start_run fresh_worker)
     = Some (Inr (), (fresh_worker :: unit Worker)\<lparr>isProcessing := True, isCancelled := True\<rparr>) \<and>
   (\<exists>w. generateMosaic (first_cell_run [Cancel]) () fresh_worker = Some w
        \<and> terminal_of_run fresh_worker w = [])"
proof -
  let ?pre = "[CheckPauseCancel [], BatchCheckPauseCancel [], CheckPauseCancel [],
               Stage (Some (Inr ())), Await [Cancel]]"
  let ?w1 = "(fresh_worker :: unit Worker)\<lparr>isProcessing := True, isCancelled := True\<rparr>"
  have nc: "never_cancelled (first_cell_run [Pause, Resume])"
    by (simp add: never_cancelled_def first_cell_run_def)
  obtain w where w: "generateMosaic (first_cell_run [Pause, Resume]) () (fresh_worker :: unit Worker) = Some w"
    by (simp add: worker_defs)
  have rs: "run_stages (first_cell_run [Pause, Resume]) (start_run (fresh_worker :: unit Worker))
              = Some (Inr (), fresh_worker\<lparr>isProcessing := True, outbox := [Paused, Resumed]\<rparr>)"
    by (simp add: worker_defs)
  note t1 = run_terminal_messages [of "first_cell_run [Pause, Resume]" "()" fresh_worker,
              THEN conjunct1, rule_format, OF w]
  have ev: "terminal_of_run fresh_worker w = [Complete ()]"
    using t1 [THEN conjunct2, THEN conjunct2, THEN conjunct2, rule_format, OF rs] by simp
  have sp: "first_cell_run [Cancel] = ?pre @ CheckPauseCancel [] # []"
    by (simp add: first_cell_run_def)
  have pre: "run_stages ?pre (start_run fresh_worker) = Some (Inr (), ?w1)"
    by (simp add: worker_defs)
  have c: "isCancelled ?w1" by simp
  from run_terminal_messages [of "first_cell_run [Cancel]" "()" fresh_worker,
         THEN conjunct2, rule_format, of ?pre "[]" "[]" ?w1] sp pre c
  have "\<exists>w. generateMosaic (first_cell_run [Cancel]) () fresh_worker = Some w
        \<and> terminal_of_run fresh_worker w = []"
    by blast
  then show ?thesis using nc w ev sp pre by blast
qed

section \<open>An empty tile list\<close>

lemma constrained_empty:
  "selectBestTileWithNeighborConstraint cell [] uc nb settings u = (True, Inl TypeError)"
  by (simp add: constrained_unfold selectBestTile_empty)

lemma place_cell_empty: "place_cell settings [] g u i fx cell st = Some (Inl TypeError)"
  by (simp add: place_cell_def Let_def constrained_empty selectBestTile_empty)

lemma generateMosaicGrid_empty:
  "cells sourceData \<noteq> [] \<Longrightarrow> generateMosaicGrid sourceData [] settings rng env = Some (Inl TypeError)"
  by (cases "cells sourceData") (simp_all add: generateMosaicGrid_def place_cell_empty)

lemma run_with_raise:
  fixes r :: 'a and w1 :: "'a Worker"
  assumes "run_stages pre (start_run fresh_worker) = Some (Inr (), w1)"
  shows "\<exists>w. generateMosaic (pre @ Stage (Some (Inl e)) # post) r fresh_worker = Some w
           \<and> (\<forall>x. Complete x \<notin> set (outbox w))
           \<and> (\<not> isCancelled w1 \<longrightarrow> filter is_terminal (outbox w) = [Error e])"
proof -
  have sft: "filter is_terminal (outbox (start_run (fresh_worker :: 'a Worker))) = []"
    by (rule start_fresh_terminal)
  have rb: "run_stages (pre @ Stage (Some (Inl e)) # post) (start_run fresh_worker) = Some (Inl e, w1)"
    using run_stages_append [OF assms, of "Stage (Some (Inl e)) # post"] by simp
  have t1: "filter is_terminal (outbox w1) = []"
    using run_stages_terminal [OF assms] sft by simp
  then have nc: "Complete x \<notin> set (outbox w1)" for x
    by (auto simp add: filter_empty_conv)
  show ?thesis
    using rb t1 nc by (auto simp add: generateMosaic_def sendMessage_def)
qed

text \<open>
  C9: with an empty tile list both selection procedures throw a \<open>TypeError\<close> instead of
  returning a tile, so \<open>generateMosaicGrid\<close> throws at its first cell, whatever the draws
  and whatever the canvas, the preview and the pause/cancel check would do, and a run that
  reaches that stage posts no \<open>Complete\<close> message (and posts \<open>Error\<close> unless it was
  cancelled); and every tile a selection returns, hence every placement, is drawn from the
  supplied tile list.
\<close>

theorem empty_tile_list_raises:
  fixes r :: 'a
  shows
  "selectBestTile cell [] uc settings u = Inl TypeError
   \<and> selectBestTileWithNeighborConstraint cell [] uc nb settings u = (True, Inl TypeError)
   \<and> (cells sourceData \<noteq> [] \<longrightarrow> generateMosaicGrid sourceData [] settings rng env = Some (Inl TypeError))
   \<and> (\<forall>pre post. \<forall>w1 :: 'a Worker.
         cells sourceData \<noteq> [] \<and> run_stages pre (start_run fresh_worker) = Some (Inr (), w1) \<longrightarrow>
         (\<exists>w. generateMosaic (pre @ stage_of (generateMosaicGrid sourceData [] settings rng env) # post)
                 r fresh_worker = Some w
              \<and> (\<forall>x. Complete x \<notin> set (outbox w))
              \<and> (\<not> isCancelled w1 \<longrightarrow> filter is_terminal (outbox w) = [Error TypeError])))
   \<and> (\<forall>t. selectBestTile cell tileMeta uc settings u = Inr t \<longrightarrow> t \<in> set tileMeta)
   \<and> (\<forall>t. snd (selectBestTileWithNeighborConstraint cell tileMeta uc nb settings u) = Inr t
          \<longrightarrow> t \<in> set tileMeta)
   \<and> (\<forall>st. generateMosaicGrid sourceData tileMeta settings rng env = Some (Inr st) \<longrightarrow>
          (\<forall>p \<in> set (tiles st). tileMetadata p \<in> set tileMeta
                                \<and> place_tile p = filename (tileMetadata p)))"
proof -
  have 4: "\<exists>w. generateMosaic (pre @ stage_of (generateMosaicGrid sourceData [] settings rng env) # post)
                 r fresh_worker = Some w
              \<and> (\<forall>x. Complete x \<notin> set (outbox w))
              \<and> (\<not> isCancelled w1 \<longrightarrow> filter is_terminal (outbox w) = [Error TypeError])"
    if "cells sourceData \<noteq> []" "run_stages pre (start_run fresh_worker) = Some (Inr (), w1)"
    for pre post and w1 :: "'a Worker"
  proof -
    have "stage_of (generateMosaicGrid sourceData [] settings rng env) = Stage (Some (Inl TypeError))"
      using generateMosaicGrid_empty [OF that(1)] by (simp add: stage_of_def)
    then show ?thesis using run_with_raise [OF that(2), of TypeError post r] by simp
  qed
  have 7: "\<forall>p \<in> set (tiles st). tileMetadata p \<in> set tileMeta \<and> place_tile p = filename (tileMetadata p)"
    if "generateMosaicGrid sourceData tileMeta settings rng env = Some (Inr st)" for st
    using place_cells_count [OF that [unfolded generateMosaicGrid_def]]
    by (simp add: initial_GridState_def)
  have 3: "cells sourceData \<noteq> [] \<longrightarrow> generateMosaicGrid sourceData [] settings rng env = Some (Inl TypeError)"
    using generateMosaicGrid_empty by blast
  have 5: "\<forall>t. selectBestTile cell tileMeta uc settings u = Inr t \<longrightarrow> t \<in> set tileMeta"
    using selectBestTile_mem by blast
  have 6: "\<forall>t. snd (selectBestTileWithNeighborConstraint cell tileMeta uc nb settings u) = Inr t
          \<longrightarrow> t \<in> set tileMeta"
    using constrained_mem by blast
  show ?thesis
    apply (intro conjI)
          apply (rule selectBestTile_empty)
         apply (rule constrained_empty)
        apply (rule 3)
       apply (use 4 in blast)
      apply (rule 5)
     apply (rule 6)
    apply (use 7 in blast)
    done
qed

theorem empty_tile_list_raises_witness:
  "cells demo_source \<noteq> []
   \<and> run_stages [] (start_run fresh_worker) = Some (Inr (), start_run (fresh_worker :: unit Worker))
   \<and> generateMosaicGrid demo_source [] demo_settings (\<lambda>i. 0) quiet = Some (Inl TypeError)
   \<and> (\<exists>w. generateMosaic ([] @ stage_of (generateMosaicGrid demo_source [] demo_settings (\<lambda>i. 0) quiet) # [])
              () fresh_worker = Some w
          \<and> filter is_terminal (outbox w) = [Error TypeError])"
proof -
  have c: "cells demo_source \<noteq> []" by (simp add: demo_source_def)
  have p: "run_stages [] (start_run fresh_worker) = Some (Inr (), start_run (fresh_worker :: unit Worker))"
    by simp
  have n: "\<not> isCancelled (start_run (fresh_worker :: unit Worker))" by (simp add: start_run_def)
  note t = empty_tile_list_raises [where sourceData = demo_source and settings = demo_settings
                 and rng = "\<lambda>i. 0" and r = "()" and env = quiet]
  have g: "generateMosaicGrid demo_source [] demo_settings (\<lambda>i. 0) quiet = Some (Inl TypeError)"
    using t c by blast
  have "\<exists>w. generateMosaic ([] @ stage_of (generateMosaicGrid demo_source [] demo_settings (\<lambda>i. 0) quiet) # [])
              () fresh_worker = Some w
          \<and> filter is_terminal (outbox w) = [Error TypeError]"
    using t c p n by blast
  then show ?thesis using c p g by blast
qed

section \<open>Colour distance and average colour\<close>

text \<open>
  What \<open>MosaicWorker.calculateColorDistance\<close> computes: in \<open>lab\<close> mode the Euclidean
  distance over the three Lab components; in any other mode, \<open>rgb\<close> included, the absolute
  difference of the lightness components, which for colours converted by \<open>rgbToLab\<close> is
  \<open>|0.299 dR + 0.587 dG + 0.114 dB| * 100 / 255\<close>. \<open>ColorUtils.deltaEFast\<close> and
  \<open>TileManager.calculateColorDistance\<close> return the Euclidean RGB distance with weights
  2, 4, 3.
\<close>

theorem color_distance_modes:
  "calculateColorDistance lab1 lab2 ''lab''
     = sqrt ((lab_l lab1 - lab_l lab2)\<^sup>2 + (lab_a lab1 - lab_a lab2)\<^sup>2 + (lab_b lab1 - lab_b lab2)\<^sup>2)
   \<and> (method \<noteq> ''lab'' \<longrightarrow> calculateColorDistance lab1 lab2 method = \<bar>lab_l lab1 - lab_l lab2\<bar>)
   \<and> calculateColorDistance (rgbToLab c1) (rgbToLab c2) ''rgb''
       = \<bar>0.299 * (red c1 - red c2) + 0.587 * (green c1 - green c2) + 0.114 * (blue c1 - blue c2)\<bar>
         * 100 / 255
   \<and> deltaEFast c1 c2
       = sqrt (2 * (red c1 - red c2)\<^sup>2 + 4 * (green c1 - green c2)\<^sup>2 + 3 * (blue c1 - blue c2)\<^sup>2)
   \<and> TileManager_calculateColorDistance c1 c2 = deltaEFast c1 c2"
proof -
  have 1: "calculateColorDistance lab1 lab2 ''lab''
     = sqrt ((lab_l lab1 - lab_l lab2)\<^sup>2 + (lab_a lab1 - lab_a lab2)\<^sup>2 + (lab_b lab1 - lab_b lab2)\<^sup>2)"
    by (simp add: calculateColorDistance_def Let_def power2_eq_square)
  have 2: "method \<noteq> ''lab'' \<longrightarrow> calculateColorDistance lab1 lab2 method = \<bar>lab_l lab1 - lab_l lab2\<bar>"
    by (simp add: calculateColorDistance_def Let_def)
  let ?Y = "0.299 * (red c1 - red c2) + 0.587 * (green c1 - green c2) + 0.114 * (blue c1 - blue c2)"
  have eq: "lab_l (rgbToLab c1) - lab_l (rgbToLab c2) = ?Y * (100 / 255)"
    by (simp add: rgbToLab_def Let_def field_simps)
  have "\<bar>lab_l (rgbToLab c1) - lab_l (rgbToLab c2)\<bar> = \<bar>?Y * (100 / 255)\<bar>"
    by (simp only: eq)
  also have "\<dots> = \<bar>?Y\<bar> * \<bar>100 / 255 :: real\<bar>" by (rule abs_mult)
  also have "\<dots> = \<bar>?Y\<bar> * 100 / 255" by simp
  finally have "\<bar>lab_l (rgbToLab c1) - lab_l (rgbToLab c2)\<bar> = \<bar>?Y\<bar> * 100 / 255" .
  then have 3: "calculateColorDistance (rgbToLab c1) (rgbToLab c2) ''rgb''
       = \<bar>0.299 * (red c1 - red c2) + 0.587 * (green c1 - green c2) + 0.114 * (blue c1 - blue c2)\<bar>
         * 100 / 255"
    by (simp add: calculateColorDistance_def Let_def)
  have 4: "deltaEFast c1 c2
       = sqrt (2 * (red c1 - red c2)\<^sup>2 + 4 * (green c1 - green c2)\<^sup>2 + 3 * (blue c1 - blue c2)\<^sup>2)"
    by (simp add: deltaEFast_def Let_def power2_eq_square mult.assoc)
  have 5: "TileManager_calculateColorDistance c1 c2 = deltaEFast c1 c2"
    by (simp add: TileManager_calculateColorDistance_def deltaEFast_def)
  show ?thesis using 1 2 3 4 5 by blast
qed

theorem color_distance_modes_witness:
  "''rgb'' \<noteq> ''lab''
   \<and> calculateColorDistance \<lparr>lab_l = 50, lab_a = 10, lab_b = 0\<rparr> \<lparr>lab_l = 20, lab_a = 0, lab_b = 5\<rparr> ''rgb'' = 30"
proof -
  have n: "''rgb'' \<noteq> ''lab''" by simp
  from color_distance_modes [of "\<lparr>lab_l = 50, lab_a = 10, lab_b = 0\<rparr>"
          "\<lparr>lab_l = 20, lab_a = 0, lab_b = 5\<rparr>" "''rgb''", THEN conjunct2, THEN conjunct1] n
  show ?thesis by simp
qed

lemma average_loop_sums:
  assumes len: "length d = 4 * n"
  shows "j \<le> n \<Longrightarrow>
         average_loop d (4 * j) (Some sr, Some sg, Some sb) =
           (Some (sr + (\<Sum>k = j..<n. unat (d ! (4 * k)))),
            Some (sg + (\<Sum>k = j..<n. unat (d ! (4 * k + 1)))),
            Some (sb + (\<Sum>k = j..<n. unat (d ! (4 * k + 2)))))"
proof (induction "n - j" arbitrary: j sr sg sb)
  case 0
  then have "j = n" by simp
  then show ?case using len by (subst average_loop.simps) simp
next
  case (Suc m)
  then have j: "j < n" by simp
  have rd: "read_byte d (4 * j) = Some (unat (d ! (4 * j)))"
    "read_byte d (4 * j + 1) = Some (unat (d ! (4 * j + 1)))"
    "read_byte d (4 * j + 2) = Some (unat (d ! (4 * j + 2)))"
    using j len by (simp_all add: read_byte_def)
  have step: "average_loop d (4 * j) (Some sr, Some sg, Some sb) =
        average_loop d (4 * Suc j)
          (Some (sr + unat (d ! (4 * j))), Some (sg + unat (d ! (4 * j + 1))),
           Some (sb + unat (d ! (4 * j + 2))))"
    using j len by (subst average_loop.simps) (simp add: read_byte_def ac_simps)
  have m: "m = n - Suc j" using Suc.hyps(2) by simp
  have le: "Suc j \<le> n" using j by simp
  have split: "(\<Sum>k = j..<n. f k) = f j + (\<Sum>k = Suc j..<n. f k)" for f :: "nat \<Rightarrow> nat"
    using j by (simp add: sum.atLeast_Suc_lessThan)
  show ?case
    unfolding step Suc.hyps(1) [OF m le]
    by (simp only: split [of "\<lambda>k. unat (d ! (4 * k))"] split [of "\<lambda>k. unat (d ! (4 * k + 1))"]
          split [of "\<lambda>k. unat (d ! (4 * k + 2))"] add.assoc)
qed

lemma calculateAverageColor_mean:
  assumes "valid_ImageData img" and "0 < width img * height img"
  shows "calculateAverageColor img =
     Some \<lparr>red = of_int \<lfloor>real (\<Sum>k < width img * height img. unat (data img ! (4 * k)))
                        / real (width img * height img) + 1 / 2\<rfloor>,
           green = of_int \<lfloor>real (\<Sum>k < width img * height img. unat (data img ! (4 * k + 1)))
                        / real (width img * height img) + 1 / 2\<rfloor>,
           blue = of_int \<lfloor>real (\<Sum>k < width img * height img. unat (data img ! (4 * k + 2)))
                        / real (width img * height img) + 1 / 2\<rfloor>\<rparr>"
proof -
  let ?n = "width img * height img"
  have len: "length (data img) = 4 * ?n" using assms(1) by (simp add: valid_ImageData_def)
  have loop: "average_loop (data img) 0 (Some 0, Some 0, Some 0) =
           (Some (\<Sum>k < ?n. unat (data img ! (4 * k))),
            Some (\<Sum>k < ?n. unat (data img ! (4 * k + 1))),
            Some (\<Sum>k < ?n. unat (data img ! (4 * k + 2))))"
    using average_loop_sums [OF len, of 0 0 0 0] by (simp add: atLeast0LessThan)
  have pc: "real (length (data img)) / 4 = real ?n" unfolding len by simp
  have nz: "real ?n \<noteq> 0" using assms(2) by simp
  show ?thesis
    unfolding calculateAverageColor_def Let_def loop pc
    using nz by (simp add: Math_round_div_def)
qed

text \<open>
  What \<open>MosaicWorker.calculateAverageColor\<close> computes: for an image with at least one pixel,
  per channel, the sum of that channel over all pixels divided by the number of pixels and
  rounded to the nearest whole number; two images that agree on R, G and B have the same
  average whatever their alpha; \<open>extractTileMetadata\<close> stores this value.
\<close>

theorem average_color_plain_mean:
  assumes "valid_ImageData img" and "0 < width img * height img"
  shows "calculateAverageColor img =
     Some \<lparr>red = of_int \<lfloor>real (\<Sum>k < width img * height img. unat (data img ! (4 * k)))
                        / real (width img * height img) + 1 / 2\<rfloor>,
           green = of_int \<lfloor>real (\<Sum>k < width img * height img. unat (data img ! (4 * k + 1)))
                        / real (width img * height img) + 1 / 2\<rfloor>,
           blue = of_int \<lfloor>real (\<Sum>k < width img * height img. unat (data img ! (4 * k + 2)))
                        / real (width img * height img) + 1 / 2\<rfloor>\<rparr>
   \<and> (\<forall>img'. valid_ImageData img' \<and> width img' = width img \<and> height img' = height img \<and>
          (\<forall>k < width img * height img.
              data img' ! (4 * k) = data img ! (4 * k) \<and>
              data img' ! (4 * k + 1) = data img ! (4 * k + 1) \<and>
              data img' ! (4 * k + 2) = data img ! (4 * k + 2))
        \<longrightarrow> calculateAverageColor img' = calculateAverageColor img)
   \<and> (file_imageData file = img \<longrightarrow>
        extractTileMetadata_averageColor file = calculateAverageColor img)"
proof -
  have same: "calculateAverageColor img' = calculateAverageColor img"
    if h: "valid_ImageData img' \<and> width img' = width img \<and> height img' = height img \<and>
          (\<forall>k < width img * height img.
              data img' ! (4 * k) = data img ! (4 * k) \<and>
              data img' ! (4 * k + 1) = data img ! (4 * k + 1) \<and>
              data img' ! (4 * k + 2) = data img ! (4 * k + 2))" for img'
  proof -
    have v: "valid_ImageData img'" and p: "0 < width img' * height img'"
      using h assms(2) by simp_all
    have s: "(\<Sum>k < width img * height img. unat (data img' ! (4 * k + c)))
           = (\<Sum>k < width img * height img. unat (data img ! (4 * k + c)))" if "c < 3" for c
    proof (rule sum.cong)
      fix k assume "k \<in> {..<width img * height img}"
      then have "k < width img * height img" by simp
      moreover have "c = 0 \<or> c = 1 \<or> c = 2" using that by linarith
      ultimately show "unat (data img' ! (4 * k + c)) = unat (data img ! (4 * k + c))"
        using h by auto
    qed simp
    have wh: "width img' * height img' = width img * height img" using h by simp
    show ?thesis
      unfolding calculateAverageColor_mean [OF v p] calculateAverageColor_mean [OF assms] wh
      using s [of 0] s [of 1] s [of 2] by simp
  qed
  show ?thesis
    using calculateAverageColor_mean [OF assms] same
    by (simp add: extractTileMetadata_averageColor_def)
qed

theorem average_color_plain_mean_witness:
  "valid_ImageData two_pixel_image \<and> 0 < width two_pixel_image * height two_pixel_image
   \<and> calculateAverageColor two_pixel_image
      = Some \<lparr>red = of_int \<lfloor>real (\<Sum>k < 2. unat (data two_pixel_image ! (4 * k))) / real 2 + 1 / 2\<rfloor>,
              green = of_int \<lfloor>real (\<Sum>k < 2. unat (data two_pixel_image ! (4 * k + 1))) / real 2 + 1 / 2\<rfloor>,
              blue = of_int \<lfloor>real (\<Sum>k < 2. unat (data two_pixel_image ! (4 * k + 2))) / real 2 + 1 / 2\<rfloor>\<rparr>"
proof -
  have v: "valid_ImageData two_pixel_image" by (simp add: valid_ImageData_def two_pixel_image_def)
  have p: "0 < width two_pixel_image * height two_pixel_image" by (simp add: two_pixel_image_def)
  have wh: "width two_pixel_image * height two_pixel_image = 2" by (simp add: two_pixel_image_def)
  from average_color_plain_mean [OF v p, THEN conjunct1, unfolded wh]
  show ?thesis using v p by simp
qed

text \<open>
  C4 fails in \<open>rgb\<close> mode. The branch of \<open>MosaicWorker.calculateColorDistance\<close> commented
  "Distance calculation in RGB color space (fast)" returns \<open>Math.abs(deltaL)\<close>, the
  difference of the lightness values only. For pure red against black, both converted by
  \<open>rgbToLab\<close>, it returns 29.9, where the weighted distance of the claim is
  \<open>sqrt(2 * 255 * 255)\<close>, about 360.6; \<open>TileManager.calculateColorDistance\<close> and
  \<open>ColorUtils.deltaEFast\<close> return that value for the same pair. In \<open>lab\<close> mode the worker
  returns the Euclidean distance over the three Lab components, here
  \<open>sqrt(29.9 * 29.9 + 50 * 50)\<close>.
\<close>

theorem rgb_mode_is_lightness_only:
  "calculateColorDistance (rgbToLab pure_red) (rgbToLab black) ''rgb'' = 299 / 10
   \<and> 299 / 10 < sqrt (2 * (255 - 0) * (255 - 0) + 4 * (0 - 0) * (0 - 0) + 3 * (0 - 0) * (0 - 0))
   \<and> TileManager_calculateColorDistance pure_red black
       = sqrt (2 * (255 - 0) * (255 - 0) + 4 * (0 - 0) * (0 - 0) + 3 * (0 - 0) * (0 - 0))
   \<and> deltaEFast pure_red black
       = sqrt (2 * (255 - 0) * (255 - 0) + 4 * (0 - 0) * (0 - 0) + 3 * (0 - 0) * (0 - 0))
   \<and> calculateColorDistance (rgbToLab pure_red) (rgbToLab black) ''lab''
       = sqrt ((299 / 10) * (299 / 10) + 50 * 50 + 0 * 0)"
proof -
  have a: "calculateColorDistance (rgbToLab pure_red) (rgbToLab black) ''rgb'' = 299 / 10"
    by (simp add: calculateColorDistance_def rgbToLab_def pure_red_def black_def Let_def)
  have "(299 / 10 :: real)\<^sup>2 < 130050" by (simp add: power2_eq_square)
  then have "(299 / 10 :: real) < sqrt 130050" by (rule real_less_rsqrt)
  then have b: "299 / 10 < sqrt (2 * (255 - 0) * (255 - 0) + 4 * (0 - 0) * (0 - 0) + 3 * (0 - 0) * (0 - 0))"
    by simp
  have c: "deltaEFast pure_red black
       = sqrt (2 * (255 - 0) * (255 - 0) + 4 * (0 - 0) * (0 - 0) + 3 * (0 - 0) * (0 - 0))"
    by (simp add: deltaEFast_def pure_red_def black_def Let_def)
  have d: "TileManager_calculateColorDistance pure_red black
       = sqrt (2 * (255 - 0) * (255 - 0) + 4 * (0 - 0) * (0 - 0) + 3 * (0 - 0) * (0 - 0))"
    by (simp add: TileManager_calculateColorDistance_def pure_red_def black_def Let_def)
  have e: "calculateColorDistance (rgbToLab pure_red) (rgbToLab black) ''lab''
       = sqrt ((299 / 10) * (299 / 10) + 50 * 50 + 0 * 0)"
    by (simp add: calculateColorDistance_def rgbToLab_def pure_red_def black_def Let_def)
  show ?thesis using a b c d e by blast
qed

text \<open>
  C7 fails in the worker. For a fully transparent red pixel next to an opaque black one,
  \<open>MosaicWorker.calculateAverageColor\<close>, which \<open>extractTileMetadata\<close> calls, averages both
  pixels and returns red 128; the mean that skips fully transparent pixels is black, and
  black is what \<open>TileManager.calculateAverageColor\<close> ("Check transparency") returns for the
  same buffer.
\<close>

theorem average_color_ignores_alpha:
  "extractTileMetadata_averageColor
      \<lparr>file_name = ''t.png'', file_size = 8, file_imageData = two_pixel_image\<rparr>
     = Some \<lparr>red = 128, green = 0, blue = 0\<rparr>
   \<and> calculateAverageColor two_pixel_image = Some \<lparr>red = 128, green = 0, blue = 0\<rparr>
   \<and> spec_alpha_weighted_average two_pixel_image = Some \<lparr>red = 0, green = 0, blue = 0\<rparr>
   \<and> TileManager_calculateAverageColor two_pixel_image = \<lparr>red = 0, green = 0, blue = 0\<rparr>"
proof -
  have a: "calculateAverageColor two_pixel_image = Some \<lparr>red = 128, green = 0, blue = 0\<rparr>"
    by (simp add: calculateAverageColor_def two_pixel_image_def average_loop.simps read_byte_def
          Math_round_div_def Let_def)
  have b: "spec_alpha_weighted_average two_pixel_image = Some \<lparr>red = 0, green = 0, blue = 0\<rparr>"
    by (simp add: spec_alpha_weighted_average_def two_pixel_image_def pixels_of_def Let_def upt_rec)
  have c: "TileManager_calculateAverageColor two_pixel_image = \<lparr>red = 0, green = 0, blue = 0\<rparr>"
    by (simp add: TileManager_calculateAverageColor_def two_pixel_image_def
          TileManager_average_loop.simps Let_def)
  have d: "extractTileMetadata_averageColor
      \<lparr>file_name = ''t.png'', file_size = 8, file_imageData = two_pixel_image\<rparr>
     = calculateAverageColor two_pixel_image"
    by (simp add: extractTileMetadata_averageColor_def)
  show ?thesis using a b c d by simp
qed

section \<open>Raster size of the high-resolution reconstruction\<close>

lemma highRes_threshold: "g * 256 > maxCanvasSize \<longleftrightarrow> g > maxGridSizeFor256"
  by (simp add: maxCanvasSize_def maxGridSizeFor256_def) presburger

lemma highRes_fits: "gi_gridSize gi * highResTileSize gi \<le> maxCanvasSize"
proof (cases "gi_gridSize gi > maxGridSizeFor256")
  case True
  then show ?thesis by (simp add: highResTileSize_def)
next
  case False
  then have "gi_gridSize gi \<le> 127" by (simp add: maxGridSizeFor256_def maxCanvasSize_def)
  then have "gi_gridSize gi * 256 \<le> 127 * 256" by (rule mult_le_mono1)
  then show ?thesis using False by (simp add: highResTileSize_def maxCanvasSize_def)
qed

lemma highRes_positive:
  assumes "0 < gi_gridSize gi" "gi_gridSize gi \<le> maxCanvasSize"
  shows "0 < gi_gridSize gi * highResTileSize gi"
proof -
  have "0 < maxCanvasSize div gi_gridSize gi" using assms by (simp add: div_greater_zero_iff)
  then show ?thesis using assms(1) by (simp add: highResTileSize_def)
qed

text \<open>
  For a 150 x 150 grid the tile size is reduced to 218 and the canvas is 32700 pixels
  wide, but the \<open>gridInfo\<close> of the result data still shows the tile size 32 of the run.
\<close>

theorem gridInfo_keeps_tile_size:
  "reported_tileSize (generateHighResolutionMosaic (Some result_150)) = Some 32
   \<and> hr_canvas (generateHighResolutionMosaic (Some result_150)) = Some (150 * 218, 150 * 218)"
  by (simp add: reported_tileSize_def generateHighResolutionMosaic_def result_150_def
        highResTileSize_def maxGridSizeFor256_def maxCanvasSize_def Let_def)

text \<open>
  C8, as the code has it: when \<open>gridSize * 256\<close> exceeds the ceiling 32767 the tile size
  becomes \<open>floor(32767 / gridSize)\<close> and is announced in a warning notification; otherwise
  it stays 256. The computed raster size never exceeds the ceiling, so the size-limit
  failure, which is taken exactly when it does, cannot occur; a canvas that is returned is
  within the ceiling, and one is returned for every grid size from 1 to 32767. The result
  data and its \<open>gridInfo\<close> are left as they were.
\<close>

theorem high_resolution_tile_size:
  assumes "res_tileMap rd = Some tm" and "res_gridInfo rd = Some gi"
  shows "(gi_gridSize gi * 256 > maxCanvasSize \<longrightarrow>
            highResTileSize gi = maxCanvasSize div gi_gridSize gi
            \<and> TileSizeAdjusted (maxCanvasSize div gi_gridSize gi)
                 \<in> set (hr_notifications (generateHighResolutionMosaic (Some rd))))
       \<and> (gi_gridSize gi * 256 \<le> maxCanvasSize \<longrightarrow> highResTileSize gi = 256)
       \<and> gi_gridSize gi * highResTileSize gi \<le> maxCanvasSize
       \<and> (hr_null_reason (generateHighResolutionMosaic (Some rd)) = Some SizeLimit
            \<longleftrightarrow> gi_gridSize gi * highResTileSize gi > maxCanvasSize)
       \<and> (0 < gi_gridSize gi \<and> gi_gridSize gi \<le> maxCanvasSize \<longrightarrow>
            hr_canvas (generateHighResolutionMosaic (Some rd))
              = Some (gi_gridSize gi * highResTileSize gi, gi_gridSize gi * highResTileSize gi))
       \<and> (\<forall>w h. hr_canvas (generateHighResolutionMosaic (Some rd)) = Some (w, h)
            \<longrightarrow> w \<le> maxCanvasSize \<and> h \<le> maxCanvasSize)
       \<and> hr_resultData (generateHighResolutionMosaic (Some rd)) = Some rd
       \<and> maxCanvasSize = 32767"
proof -
  let ?out = "generateHighResolutionMosaic (Some rd)"
  let ?g = "gi_gridSize gi" and ?t = "highResTileSize gi"
  note fits = highRes_fits [of gi]
  have out: "?out =
      (if ?g * ?t = 0
       then \<lparr>hr_canvas = None, hr_null_reason = Some CanvasCreationFailed,
             hr_notifications = (if ?g > maxGridSizeFor256
                 then [Info ''generating-high-res''] @ [TileSizeAdjusted ?t]
                 else [Info ''generating-high-res'']),
             hr_resultData = Some rd\<rparr>
       else \<lparr>hr_canvas = Some (?g * ?t, ?g * ?t), hr_null_reason = None,
             hr_notifications = (if ?g > maxGridSizeFor256
                 then [Info ''generating-high-res''] @ [TileSizeAdjusted ?t]
                 else [Info ''generating-high-res'']) @ [Success ''high-res-complete''],
             hr_resultData = Some rd\<rparr>)"
    using assms fits by (simp add: generateHighResolutionMosaic_def Let_def)
  have 1: "?g * 256 > maxCanvasSize \<longrightarrow>
            ?t = maxCanvasSize div ?g \<and> TileSizeAdjusted (maxCanvasSize div ?g) \<in> set (hr_notifications ?out)"
    unfolding out by (simp add: highRes_threshold highResTileSize_def)
  have 2: "?g * 256 \<le> maxCanvasSize \<longrightarrow> ?t = 256"
  proof
    assume "?g * 256 \<le> maxCanvasSize"
    then have "\<not> ?g > maxGridSizeFor256" using highRes_threshold [of ?g] by linarith
    then show "?t = 256" by (simp add: highResTileSize_def)
  qed
  have 4: "hr_null_reason ?out = Some SizeLimit \<longleftrightarrow> ?g * ?t > maxCanvasSize"
    unfolding out using fits by simp
  have 5: "0 < ?g \<and> ?g \<le> maxCanvasSize \<longrightarrow> hr_canvas ?out = Some (?g * ?t, ?g * ?t)"
  proof
    assume "0 < ?g \<and> ?g \<le> maxCanvasSize"
    then have "?g * ?t \<noteq> 0" using highRes_positive [of gi] by simp
    then show "hr_canvas ?out = Some (?g * ?t, ?g * ?t)" by (subst out) simp
  qed
  have 6: "\<forall>w h. hr_canvas ?out = Some (w, h) \<longrightarrow> w \<le> maxCanvasSize \<and> h \<le> maxCanvasSize"
    unfolding out using fits by simp
  have 7: "hr_resultData ?out = Some rd" unfolding out by simp
  have 8: "maxCanvasSize = 32767" by (rule maxCanvasSize_def)
  show ?thesis
    apply (intro conjI)
           apply (rule 1)
          apply (rule 2)
         apply (rule fits)
        apply (rule 4)
       apply (rule 5)
      apply (rule 6)
     apply (rule 7)
    apply (rule 8)
    done
qed

theorem high_resolution_tile_size_witness:
  "res_tileMap result_150 = Some [] \<and>
   res_gridInfo result_150 = Some \<lparr>gi_gridSize = 150, gi_tileSize = 32\<rparr> \<and>
   150 * 256 > maxCanvasSize \<and>
   highResTileSize \<lparr>gi_gridSize = 150, gi_tileSize = 32\<rparr> = 218 \<and>
   TileSizeAdjusted 218 \<in> set (hr_notifications (generateHighResolutionMosaic (Some result_150)))"
proof -
  let ?gi = "\<lparr>gi_gridSize = 150, gi_tileSize = 32\<rparr>"
  have a: "res_tileMap result_150 = Some []" by (simp add: result_150_def)
  have b: "res_gridInfo result_150 = Some ?gi" by (simp add: result_150_def)
  have c: "gi_gridSize ?gi * 256 > maxCanvasSize" by (simp add: maxCanvasSize_def)
  have d: "maxCanvasSize div gi_gridSize ?gi = 218" by (simp add: maxCanvasSize_def)
  from high_resolution_tile_size [OF a b, THEN conjunct1] c
  have "highResTileSize ?gi = maxCanvasSize div gi_gridSize ?gi
        \<and> TileSizeAdjusted (maxCanvasSize div gi_gridSize ?gi)
             \<in> set (hr_notifications (generateHighResolutionMosaic (Some result_150)))"
    by blast
  then show ?thesis using a b c unfolding d by simp
qed

section \<open>Termination and budget of the LRU cache\<close>

lemma stalled_never_returns:
  assumes "evict_while m c = Some c'"
  shows "\<not> stalled m c"
proof (rule evict_while.raw_induct [where P = "\<lambda>m c y. \<not> stalled m c", OF _ assms])
  fix loop :: "nat \<Rightarrow> LRUCache \<Rightarrow> LRUCache option" and m c c'
  assume ih: "\<And>m c y. loop m c = Some y \<Longrightarrow> \<not> stalled m c"
    and body: "(if js_gt (currentMemory c + int m) (maxMemory c)
                   \<or> js_ge (int (length (cache c))) (maxSize c)
                then loop m (evictLRU c) else Some c) = Some c'"
  show "\<not> stalled m c"
  proof
    assume s: "stalled m c"
    then have "evictLRU c = c"
      and "js_gt (currentMemory c + int m) (maxMemory c) \<or> js_ge (int (length (cache c))) (maxSize c)"
      by (simp_all add: stalled_def)
    then have "loop m c = Some c'" using body by simp
    then have "\<not> stalled m c" by (rule ih)
    then show False using s by simp
  qed
qed

lemma stalled_None: "stalled m c \<Longrightarrow> evict_while m c = None"
  using stalled_never_returns [of m c] by (cases "evict_while m c") auto

lemma sum_without_key:
  "distinct (map fst xs) \<Longrightarrow> map_of xs k = Some v \<Longrightarrow>
   sum_list (map (\<lambda>e. estimateMemorySize (snd e)) (filter (\<lambda>e. fst e \<noteq> k) xs)) + estimateMemorySize v
     = sum_list (map (\<lambda>e. estimateMemorySize (snd e)) xs)"
proof (induction xs)
  case Nil
  then show ?case by simp
next
  case (Cons e xs)
  show ?case
  proof (cases "fst e = k")
    case True
    then have v: "snd e = v" using Cons.prems(2) by (cases e) simp
    have "k \<notin> fst ` set xs" using Cons.prems(1) True by auto
    then have "filter (\<lambda>e. fst e \<noteq> k) xs = xs" by (auto simp add: filter_id_conv)
    then show ?thesis using True v by simp
  next
    case False
    then have "map_of xs k = Some v" using Cons.prems(2) by (cases e) (simp split: if_splits)
    then show ?thesis using Cons.IH Cons.prems(1) False by simp
  qed
qed

lemma keys_without_key: "k \<notin> fst ` set (filter (\<lambda>e. fst e \<noteq> k) xs)"
  by auto

lemma map_of_append_new: "k \<notin> fst ` set xs \<Longrightarrow> map_of (xs @ [(k, v)]) k = Some v"
  by (simp add: map_of_eq_None_iff [THEN iffD2] map_add_def)

lemma without_key:
  assumes "distinct (map fst xs)" "map_of xs k = Some old"
  shows "distinct (map fst (filter (\<lambda>e. fst e \<noteq> k) xs))"
    and "int (sum_list (map (\<lambda>e. estimateMemorySize (snd e)) (filter (\<lambda>e. fst e \<noteq> k) xs)))
           = int (sum_list (map (\<lambda>e. estimateMemorySize (snd e)) xs)) - int (estimateMemorySize old)"
    and "length (filter (\<lambda>e. fst e \<noteq> k) xs) < length xs"
proof -
  show "distinct (map fst (filter (\<lambda>e. fst e \<noteq> k) xs))"
    using assms(1) by (simp add: distinct_map_filter)
  show "int (sum_list (map (\<lambda>e. estimateMemorySize (snd e)) (filter (\<lambda>e. fst e \<noteq> k) xs)))
           = int (sum_list (map (\<lambda>e. estimateMemorySize (snd e)) xs)) - int (estimateMemorySize old)"
    using sum_without_key [OF assms] by linarith
  show "length (filter (\<lambda>e. fst e \<noteq> k) xs) < length xs"
    using assms(2) by (intro length_filter_less [of "(k, old)"]) (auto dest: map_of_SomeD)
qed

lemma tracked_delete: "tracked c \<Longrightarrow> tracked (LRUCache_delete k c)"
proof (cases "map_of (cache c) k")
  case None
  assume "tracked c"
  then show ?thesis using None by (simp add: LRUCache_delete_def)
next
  case (Some old)
  assume t: "tracked c"
  then have d: "distinct (map fst (cache c))" by (simp add: tracked_def)
  show ?thesis
    using t without_key(1,2) [OF d Some] Some
    by (simp add: LRUCache_delete_def tracked_def)
qed

lemma tracked_evictLRU: "tracked c \<Longrightarrow> tracked (evictLRU c)"
  by (auto simp add: evictLRU_def tracked_delete split: list.splits)

lemma evict_while_keeps:
  assumes "evict_while m c = Some c'"
  shows "tracked c \<longrightarrow> tracked c'"
proof (rule evict_while.raw_induct [where P = "\<lambda>m c y. tracked c \<longrightarrow> tracked y", OF _ assms])
  fix loop :: "nat \<Rightarrow> LRUCache \<Rightarrow> LRUCache option" and m c c'
  assume ih: "\<And>m c y. loop m c = Some y \<Longrightarrow> tracked c \<longrightarrow> tracked y"
    and body: "(if js_gt (currentMemory c + int m) (maxMemory c)
                   \<or> js_ge (int (length (cache c))) (maxSize c)
                then loop m (evictLRU c) else Some c) = Some c'"
  show "tracked c \<longrightarrow> tracked c'"
  proof (cases "js_gt (currentMemory c + int m) (maxMemory c) \<or> js_ge (int (length (cache c))) (maxSize c)")
    case True
    then have "loop m (evictLRU c) = Some c'" using body by simp
    then show ?thesis using ih tracked_evictLRU by blast
  next
    case False
    then show ?thesis using body by simp
  qed
qed

lemma tracked_set:
  assumes t: "tracked c" and s: "LRUCache_set key v c = Some c'"
  shows "tracked c'"
proof -
  from s obtain c1 where c1: "evict_while (estimateMemorySize v) c = Some c1"
    by (auto simp add: LRUCache_set_def Let_def split: option.splits)
  have t1: "tracked c1" using evict_while_keeps [OF c1] t by simp
  then have d1: "distinct (map fst (cache c1))" by (simp add: tracked_def)
  show ?thesis
  proof (cases "map_of (cache c1) key")
    case None
    then have nk: "key \<notin> fst ` set (cache c1)" by (simp add: map_of_eq_None_iff)
    have "c' = c1\<lparr>cache := cache c1 @ [(key, v)],
                   currentMemory := currentMemory c1 + int (estimateMemorySize v)\<rparr>"
      using s c1 None by (simp add: LRUCache_set_def Let_def)
    then show ?thesis using t1 nk by (simp add: tracked_def)
  next
    case (Some old)
    have "c' = c1\<lparr>cache := filter (\<lambda>e. fst e \<noteq> key) (cache c1) @ [(key, v)],
                   currentMemory := currentMemory c1 - int (estimateMemorySize old)
                                     + int (estimateMemorySize v)\<rparr>"
      using s c1 Some by (auto simp add: LRUCache_set_def Let_def)
    then show ?thesis
      using t1 without_key(1,2) [OF d1 Some] keys_without_key [of key "cache c1"]
      by (simp add: tracked_def)
  qed
qed

lemma tracked_get: "tracked c \<Longrightarrow> tracked (snd (LRUCache_get key c))"
proof (cases "map_of (cache c) key")
  case None
  assume "tracked c"
  then show ?thesis using None by (simp add: LRUCache_get_def)
next
  case (Some v)
  assume t: "tracked c"
  then have d: "distinct (map fst (cache c))" by (simp add: tracked_def)
  show ?thesis
    using t without_key(1,2) [OF d Some] keys_without_key [of key "cache c"] Some
    by (simp add: LRUCache_get_def tracked_def)
qed

lemma reachable_tracked: "reachable c \<Longrightarrow> tracked c"
proof (induction rule: reachable.induct)
  case (constructed ms mm)
  show ?case by (simp add: tracked_def new_LRUCache_def)
next
  case (after_set c key v c')
  then show ?case using tracked_set by blast
next
  case (after_get c key)
  then show ?case by (simp add: tracked_get)
next
  case (after_delete c key)
  then show ?case by (simp add: tracked_delete)
next
  case (after_evictLRU c)
  then show ?case by (simp add: tracked_evictLRU)
next
  case (after_clear c)
  show ?case by (simp add: tracked_def LRUCache_clear_def)
qed

lemma delete_first:
  assumes "cache c = (k, v) # rest" "distinct (map fst (cache c))"
  shows "LRUCache_delete k c = c\<lparr>currentMemory := currentMemory c - int (estimateMemorySize v), cache := rest\<rparr>"
proof -
  have "filter (\<lambda>e. fst e \<noteq> k) rest = rest"
    using assms by (auto simp add: filter_id_conv)
  then show ?thesis using assms(1) by (simp add: LRUCache_delete_def)
qed

lemma evictLRU_removes_first:
  assumes "tracked c" "truthy_keys c" "cache c = (k, v) # rest"
  shows "evictLRU c = c\<lparr>currentMemory := currentMemory c - int (estimateMemorySize v), cache := rest\<rparr>"
proof -
  have tk: "truthy k" using assms(2,3) by (simp add: truthy_keys_def)
  have d: "distinct (map fst (cache c))" using assms(1) by (simp add: tracked_def)
  show ?thesis using tk assms(3) delete_first [OF assms(3) d] by (simp add: evictLRU_def)
qed

lemma within_limit: "js_le a y \<Longrightarrow> \<not> js_gt x y \<Longrightarrow> js_le x y"
  by (cases y) simp_all

lemma below_capacity: "whole_capacity n \<Longrightarrow> \<not> js_ge x n \<Longrightarrow> js_le (x + 1) n"
proof (cases n)
  case (Finite r)
  assume w: "whole_capacity n" and b: "\<not> js_ge x n"
  have r: "r = of_int \<lfloor>r\<rfloor>" using w Finite by simp
  have "of_int x < r" using b Finite by simp
  then have "(of_int x :: real) < of_int \<lfloor>r\<rfloor>" using r by simp
  then have "x < \<lfloor>r\<rfloor>" by (simp only: of_int_less_iff)
  then have "x + 1 \<le> \<lfloor>r\<rfloor>" by simp
  then have "(of_int (x + 1) :: real) \<le> of_int \<lfloor>r\<rfloor>" by (simp only: of_int_le_iff)
  then show ?thesis using Finite r by simp
qed simp_all

lemma empty_passes:
  assumes "whole_capacity (maxSize c)" "js_le (int m) (maxMemory c)" "cache c = []" "currentMemory c = 0"
  shows "evict_while m c = Some c"
proof -
  have "\<not> js_ge (int (length (cache c))) (maxSize c)"
    using assms(1,3) by (cases "maxSize c") simp_all
  moreover have "\<not> js_gt (currentMemory c + int m) (maxMemory c)"
    using assms(2,4) by (cases "maxMemory c") simp_all
  ultimately show ?thesis by (subst evict_while.simps) simp
qed

lemma evict_while_returns:
  "tracked c \<Longrightarrow> truthy_keys c \<Longrightarrow> whole_capacity (maxSize c) \<Longrightarrow> js_le (int m) (maxMemory c) \<Longrightarrow>
   \<exists>c1. evict_while m c = Some c1 \<and> tracked c1 \<and> truthy_keys c1
        \<and> maxSize c1 = maxSize c \<and> maxMemory c1 = maxMemory c
        \<and> js_le (currentMemory c1 + int m) (maxMemory c1)
        \<and> js_le (int (length (cache c1)) + 1) (maxSize c1)"
proof (induction "length (cache c)" arbitrary: c)
  case 0
  then have e: "cache c = []" by simp
  then have z: "currentMemory c = 0" using "0.prems"(1) by (simp add: tracked_def)
  have r: "evict_while m c = Some c" by (rule empty_passes [OF "0.prems"(3,4) e z])
  have "js_le (int (length (cache c)) + 1) (maxSize c)"
    using "0.prems"(3) e by (cases "maxSize c") simp_all
  then show ?case using "0.prems" r z by simp
next
  case (Suc n)
  show ?case
  proof (cases "js_gt (currentMemory c + int m) (maxMemory c) \<or> js_ge (int (length (cache c))) (maxSize c)")
    case False
    then have r: "evict_while m c = Some c" by (subst evict_while.simps) simp
    have "js_le (currentMemory c + int m) (maxMemory c)"
      using within_limit [OF Suc.prems(4)] False by blast
    moreover have "js_le (int (length (cache c)) + 1) (maxSize c)"
      using below_capacity [OF Suc.prems(3)] False by blast
    ultimately show ?thesis using Suc.prems r by simp
  next
    case True
    obtain k v rest where c: "cache c = (k, v) # rest"
      using Suc.hyps(2) by (cases "cache c") auto
    let ?c' = "c\<lparr>currentMemory := currentMemory c - int (estimateMemorySize v), cache := rest\<rparr>"
    have ev: "evictLRU c = ?c'" by (rule evictLRU_removes_first [OF Suc.prems(1,2) c])
    have step: "evict_while m c = evict_while m ?c'"
      using True ev by (subst evict_while.simps) simp
    have len: "n = length (cache ?c')" using Suc.hyps(2) c by simp
    have t': "tracked ?c'" using Suc.prems(1) c by (simp add: tracked_def)
    have k': "truthy_keys ?c'" using Suc.prems(2) c by (simp add: truthy_keys_def)
    from Suc.hyps(1) [OF len t' k'] Suc.prems(3,4)
    show ?thesis unfolding step by simp
  qed
qed

lemma js_le_mono: "js_le x y \<Longrightarrow> x' \<le> x \<Longrightarrow> js_le x' y"
  by (cases y) simp_all

lemma set_within_budget:
  assumes "tracked c" and "truthy_keys c" and "whole_capacity (maxSize c)"
      and "js_le (int (estimateMemorySize v)) (maxMemory c)"
  shows "\<exists>c'. LRUCache_set key v c = Some c'
           \<and> js_le (int (length (cache c'))) (maxSize c') \<and> js_le (currentMemory c') (maxMemory c')
           \<and> maxSize c' = maxSize c \<and> maxMemory c' = maxMemory c
           \<and> (truthy key \<longrightarrow> truthy_keys c')
           \<and> map_of (cache c') key = Some v"
proof -
  let ?m = "estimateMemorySize v"
  obtain c1 where c1: "evict_while ?m c = Some c1" "tracked c1" "truthy_keys c1"
      "maxSize c1 = maxSize c" "maxMemory c1 = maxMemory c"
      "js_le (currentMemory c1 + int ?m) (maxMemory c1)"
      "js_le (int (length (cache c1)) + 1) (maxSize c1)"
    using evict_while_returns [OF assms] by blast
  have d1: "distinct (map fst (cache c1))" using c1(2) by (simp add: tracked_def)
  show ?thesis
  proof (cases "map_of (cache c1) key")
    case None
    let ?c' = "c1\<lparr>cache := cache c1 @ [(key, v)], currentMemory := currentMemory c1 + int ?m\<rparr>"
    have s: "LRUCache_set key v c = Some ?c'"
      using c1(1) None by (simp add: LRUCache_set_def Let_def)
    have nk: "key \<notin> fst ` set (cache c1)" using None by (simp add: map_of_eq_None_iff)
    have k: "truthy key \<longrightarrow> truthy_keys ?c'" using c1(3) by (simp add: truthy_keys_def)
    have l: "map_of (cache ?c') key = Some v" using map_of_append_new [OF nk] by simp
    have len: "js_le (int (length (cache ?c'))) (maxSize c1)"
      using js_le_mono [OF c1(7), of "int (length (cache ?c'))"] by simp
    show ?thesis
      using s k l len c1(4,5,6) by simp
  next
    case (Some old)
    let ?xs = "filter (\<lambda>e. fst e \<noteq> key) (cache c1)"
    let ?c' = "c1\<lparr>currentMemory := currentMemory c1 - int (estimateMemorySize old) + int ?m,
                    cache := ?xs @ [(key, v)]\<rparr>"
    have s: "LRUCache_set key v c = Some ?c'"
      using c1(1) Some by (simp add: LRUCache_set_def Let_def)
    have nk: "key \<notin> fst ` set ?xs" by (rule keys_without_key)
    have k: "truthy key \<longrightarrow> truthy_keys ?c'"
      using c1(3) by (simp add: truthy_keys_def list_all_iff)
    have l: "map_of (cache ?c') key = Some v" using map_of_append_new [OF nk] by simp
    have "length ?xs < length (cache c1)" by (rule without_key(3) [OF d1 Some])
    then have len: "js_le (int (length (cache ?c'))) (maxSize c1)"
      using js_le_mono [OF c1(7), of "int (length (cache ?c'))"] by simp
    have mem: "js_le (currentMemory ?c') (maxMemory c1)"
      using js_le_mono [OF c1(6), of "currentMemory ?c'"] by simp
    show ?thesis
      using s k l len mem c1(4,5) by simp
  qed
qed

text \<open>
  A cache built with \<open>maxSize = 0\<close>: the value fits the byte budget, the cache is empty,
  yet \<open>cache.size >= maxSize\<close> holds and eviction has nothing to remove, so \<open>set\<close>
  never returns. A cache built with \<open>maxSize = 1.5\<close> that holds one entry: \<open>1 >= 1.5\<close> is
  false, nothing is evicted, and \<open>set\<close> of another key leaves two entries, more than
  \<open>maxSize\<close>.
\<close>

theorem zero_capacity_never_returns:
  "js_le (int (estimateMemorySize one_byte)) (maxMemory (new_LRUCache (Finite 0) (Finite 67108864)))
   \<and> LRUCache_set (KStr ''a'') one_byte (new_LRUCache (Finite 0) (Finite 67108864)) = None
   \<and> LRUCache_set (KStr ''a'') one_byte (new_LRUCache (Finite (3 / 2)) (Finite 67108864))
       = Some one_of_one_and_a_half
   \<and> LRUCache_set (KStr ''b'') one_byte one_of_one_and_a_half
       = Some \<lparr>maxSize = Finite (3 / 2), maxMemory = Finite 67108864,
               cache = [(KStr ''a'', one_byte), (KStr ''b'', one_byte)], currentMemory = 2\<rparr>
   \<and> \<not> js_le (int (length [(KStr ''a'', one_byte), (KStr ''b'', one_byte)])) (Finite (3 / 2))"
proof -
  let ?z = "new_LRUCache (Finite 0) (Finite 67108864)"
  let ?f = "new_LRUCache (Finite (3 / 2)) (Finite 67108864)"
  have "stalled (estimateMemorySize one_byte) ?z"
    by (simp add: stalled_def new_LRUCache_def evictLRU_def)
  then have "evict_while (estimateMemorySize one_byte) ?z = None"
    by (rule stalled_None)
  then have 1: "LRUCache_set (KStr ''a'') one_byte ?z = None"
    by (simp add: LRUCache_set_def)
  have "evict_while (estimateMemorySize one_byte) ?f = Some ?f"
    by (subst evict_while.simps) (simp add: new_LRUCache_def one_byte_def)
  then have 2: "LRUCache_set (KStr ''a'') one_byte ?f = Some one_of_one_and_a_half"
    by (simp add: LRUCache_set_def new_LRUCache_def one_of_one_and_a_half_def one_byte_def)
  have "evict_while (estimateMemorySize one_byte) one_of_one_and_a_half = Some one_of_one_and_a_half"
    by (subst evict_while.simps) (simp add: one_of_one_and_a_half_def one_byte_def)
  then have 3: "LRUCache_set (KStr ''b'') one_byte one_of_one_and_a_half
       = Some \<lparr>maxSize = Finite (3 / 2), maxMemory = Finite 67108864,
               cache = [(KStr ''a'', one_byte), (KStr ''b'', one_byte)], currentMemory = 2\<rparr>"
    by (simp add: LRUCache_set_def one_of_one_and_a_half_def one_byte_def)
  show ?thesis using 1 2 3 by (simp add: new_LRUCache_def one_byte_def)
qed

text \<open>
  The guard \<open>if (firstKey)\<close> of \<open>evictLRU\<close> also skips a falsy first key: once the empty
  string is the oldest key of a full cache, the next \<open>set\<close> never returns.
\<close>

lemma falsy_key_stalls_eviction:
  "LRUCache_set (KStr '''') one_byte (new_LRUCache (Finite 1) (Finite 67108864))
     = Some \<lparr>maxSize = Finite 1, maxMemory = Finite 67108864, cache = [(KStr '''', one_byte)],
             currentMemory = 1\<rparr>
   \<and> LRUCache_set (KStr ''b'') one_byte
        \<lparr>maxSize = Finite 1, maxMemory = Finite 67108864, cache = [(KStr '''', one_byte)],
         currentMemory = 1\<rparr> = None"
proof -
  let ?n = "new_LRUCache (Finite 1) (Finite 67108864)"
  let ?c = "\<lparr>maxSize = Finite 1, maxMemory = Finite 67108864, cache = [(KStr '''', one_byte)],
             currentMemory = 1\<rparr>"
  have a: "evict_while (estimateMemorySize one_byte) ?n = Some ?n"
    by (subst evict_while.simps) (simp add: new_LRUCache_def one_byte_def)
  have 1: "LRUCache_set (KStr '''') one_byte ?n = Some ?c"
    using a by (simp add: LRUCache_set_def new_LRUCache_def one_byte_def)
  have "stalled (estimateMemorySize one_byte) ?c" by (simp add: stalled_def evictLRU_def)
  then have "evict_while (estimateMemorySize one_byte) ?c = None" by (rule stalled_None)
  then have 2: "LRUCache_set (KStr ''b'') one_byte ?c = None"
    by (simp add: LRUCache_set_def)
  show ?thesis using 1 2 by blast
qed

lemma two_of_two_reachable: "reachable two_of_two"
proof -
  let ?n = "new_LRUCache (Finite 2) (Finite 67108864)"
  let ?a = "\<lparr>maxSize = Finite 2, maxMemory = Finite 67108864, cache = [(KStr ''a'', one_byte)],
             currentMemory = 1\<rparr>"
  have "evict_while (estimateMemorySize one_byte) ?n = Some ?n"
    by (subst evict_while.simps) (simp add: new_LRUCache_def one_byte_def)
  then have 1: "LRUCache_set (KStr ''a'') one_byte ?n = Some ?a"
    by (simp add: LRUCache_set_def new_LRUCache_def one_byte_def)
  have "evict_while (estimateMemorySize one_byte) ?a = Some ?a"
    by (subst evict_while.simps) (simp add: one_byte_def)
  then have 2: "LRUCache_set (KStr ''b'') one_byte ?a = Some two_of_two"
    by (simp add: LRUCache_set_def two_of_two_def one_byte_def)
  have "reachable ?a" by (rule after_set [OF constructed 1])
  then show ?thesis by (rule after_set [OF _ 2])
qed

lemma two_of_two_evicts:
  "LRUCache_set (KStr ''c'') one_byte two_of_two
     = Some \<lparr>maxSize = Finite 2, maxMemory = Finite 67108864,
             cache = [(KStr ''b'', one_byte), (KStr ''c'', one_byte)], currentMemory = 2\<rparr>"
proof -
  let ?b = "\<lparr>maxSize = Finite 2, maxMemory = Finite 67108864, cache = [(KStr ''b'', one_byte)],
             currentMemory = 1\<rparr>"
  have e: "evictLRU two_of_two = ?b"
    by (simp add: evictLRU_def LRUCache_delete_def two_of_two_def one_byte_def)
  have "evict_while (estimateMemorySize one_byte) ?b = Some ?b"
    by (subst evict_while.simps) (simp add: one_byte_def)
  moreover have "evict_while (estimateMemorySize one_byte) two_of_two
                   = evict_while (estimateMemorySize one_byte) (evictLRU two_of_two)"
    by (subst evict_while.simps) (simp add: two_of_two_def)
  ultimately have "evict_while (estimateMemorySize one_byte) two_of_two = Some ?b"
    by (simp only: e)
  then show ?thesis by (simp add: LRUCache_set_def one_byte_def)
qed

text \<open>
  C10, as the code has it: for a cache that was built by the constructor and changed only
  by its methods, whose \<open>maxSize\<close> is a whole number of at least 1 (or \<open>Infinity\<close>) and which
  holds no falsy key, every call of \<open>set\<close> whose value has an estimated size of at most
  \<open>maxMemory\<close> returns; afterwards the cache holds at most \<open>maxSize\<close> entries, the tracked
  byte total is at most \<open>maxMemory\<close>, and the key maps to the new value. On such a cache an
  eviction removes exactly the oldest entry, and the loop does not evict from the empty
  cache.
\<close>

theorem lru_set_within_budget:
  assumes "reachable c" and "truthy_keys c" and "whole_capacity (maxSize c)"
      and "js_le (int (estimateMemorySize v)) (maxMemory c)"
  shows "(\<exists>c'. LRUCache_set key v c = Some c'
           \<and> js_le (int (length (cache c'))) (maxSize c') \<and> js_le (currentMemory c') (maxMemory c')
           \<and> maxSize c' = maxSize c \<and> maxMemory c' = maxMemory c
           \<and> reachable c' \<and> (truthy key \<longrightarrow> truthy_keys c')
           \<and> map_of (cache c') key = Some v)
       \<and> (cache c \<noteq> [] \<longrightarrow> cache (evictLRU c) = tl (cache c))
       \<and> (cache c = [] \<longrightarrow> evict_while (estimateMemorySize v) c = Some c)"
proof -
  have t: "tracked c" by (rule reachable_tracked [OF assms(1)])
  obtain c' where c': "LRUCache_set key v c = Some c'"
      "js_le (int (length (cache c'))) (maxSize c')" "js_le (currentMemory c') (maxMemory c')"
      "maxSize c' = maxSize c" "maxMemory c' = maxMemory c"
      "truthy key \<longrightarrow> truthy_keys c'" "map_of (cache c') key = Some v"
    using set_within_budget [OF t assms(2,3,4), of key] by blast
  have r: "reachable c'" by (rule after_set [OF assms(1) c'(1)])
  have 1: "\<exists>c'. LRUCache_set key v c = Some c'
           \<and> js_le (int (length (cache c'))) (maxSize c') \<and> js_le (currentMemory c') (maxMemory c')
           \<and> maxSize c' = maxSize c \<and> maxMemory c' = maxMemory c
           \<and> reachable c' \<and> (truthy key \<longrightarrow> truthy_keys c')
           \<and> map_of (cache c') key = Some v"
    using c' r by blast
  have 2: "cache c \<noteq> [] \<longrightarrow> cache (evictLRU c) = tl (cache c)"
  proof
    assume "cache c \<noteq> []"
    then obtain k x rest where c: "cache c = (k, x) # rest" by (cases "cache c") auto
    show "cache (evictLRU c) = tl (cache c)"
      unfolding evictLRU_removes_first [OF t assms(2) c] using c by simp
  qed
  have 3: "cache c = [] \<longrightarrow> evict_while (estimateMemorySize v) c = Some c"
  proof
    assume e: "cache c = []"
    then have "currentMemory c = 0" using t by (simp add: tracked_def)
    then show "evict_while (estimateMemorySize v) c = Some c"
      using empty_passes [OF assms(3,4) e] by simp
  qed
  show ?thesis using 1 2 3 by blast
qed

theorem lru_set_within_budget_witness:
  "reachable two_of_two \<and> truthy_keys two_of_two \<and> whole_capacity (maxSize two_of_two)
   \<and> js_le (int (estimateMemorySize one_byte)) (maxMemory two_of_two)
   \<and> LRUCache_set (KStr ''c'') one_byte two_of_two
       = Some \<lparr>maxSize = Finite 2, maxMemory = Finite 67108864,
               cache = [(KStr ''b'', one_byte), (KStr ''c'', one_byte)], currentMemory = 2\<rparr>
   \<and> (\<exists>c'. LRUCache_set (KStr ''c'') one_byte two_of_two = Some c'
          \<and> js_le (int (length (cache c'))) (Finite 2) \<and> js_le (currentMemory c') (Finite 67108864))
   \<and> cache (evictLRU two_of_two) = [(KStr ''b'', one_byte)]"
proof -
  have a: "reachable two_of_two" by (rule two_of_two_reachable)
  have b: "truthy_keys two_of_two" by (simp add: truthy_keys_def two_of_two_def)
  have c: "whole_capacity (maxSize two_of_two)" by (simp add: two_of_two_def)
  have d: "js_le (int (estimateMemorySize one_byte)) (maxMemory two_of_two)"
    by (simp add: two_of_two_def one_byte_def)
  note t = lru_set_within_budget [OF a b c d, of "KStr ''c''"]
  from t [THEN conjunct1]
  obtain c' where c': "LRUCache_set (KStr ''c'') one_byte two_of_two = Some c'"
     "js_le (int (length (cache c'))) (maxSize c')" "js_le (currentMemory c') (maxMemory c')"
     "maxSize c' = maxSize two_of_two" "maxMemory c' = maxMemory two_of_two"
    by blast
  then have e: "\<exists>c'. LRUCache_set (KStr ''c'') one_byte two_of_two = Some c'
          \<and> js_le (int (length (cache c'))) (Finite 2) \<and> js_le (currentMemory c') (Finite 67108864)"
    by (auto simp add: two_of_two_def)
  have f: "cache (evictLRU two_of_two) = [(KStr ''b'', one_byte)]"
    using t [THEN conjunct2, THEN conjunct1] by (simp add: two_of_two_def)
  show ?thesis using a b c d e f two_of_two_evicts by blast
qed

end
